theory Spec2Isabelle
  imports Complex_Main
begin

section \<open>Calendar dates and the weekly date range\<close>

text \<open>
  A timestamp is a calendar day, held as its proleptic Gregorian ordinal (day 1 is
  0001-01-01), the number Python's \<^verbatim>\<open>date.toordinal()\<close> gives. The functions below
  are the ones of Python's \<^verbatim>\<open>datetime\<close> module.
\<close>

type_synonym timestamp = int

definition is_leap :: "int \<Rightarrow> bool" where
  "is_leap y \<longleftrightarrow> y mod 4 = 0 \<and> (y mod 100 \<noteq> 0 \<or> y mod 400 = 0)"

definition days_before_year :: "int \<Rightarrow> int" where
  "days_before_year y = (y - 1) * 365 + (y - 1) div 4 - (y - 1) div 100 + (y - 1) div 400"

definition days_in_month :: "int \<Rightarrow> int \<Rightarrow> int" where
  "days_in_month y m =
     (if m = 2 then (if is_leap y then 29 else 28)
      else if m = 4 \<or> m = 6 \<or> m = 9 \<or> m = 11 then 30 else 31)"

definition days_before_month :: "int \<Rightarrow> int \<Rightarrow> int" where
  "days_before_month y m = (\<Sum>k \<leftarrow> [1 ..< nat m]. days_in_month y (int k))"

definition ordinal :: "int \<Rightarrow> int \<Rightarrow> int \<Rightarrow> timestamp" where
  "ordinal y m d = days_before_year y + days_before_month y m + d"

text \<open>Monday is 0 and Sunday is 6, as \<^verbatim>\<open>date.weekday()\<close> counts.\<close>

definition weekday :: "timestamp \<Rightarrow> int" where
  "weekday d = (d + 6) mod 7"

text \<open>
  \<^verbatim>\<open>pd.date_range(start, end, freq='W-SUN')\<close>: the start is rolled forward to the first
  Sunday on or after it, and the range then steps by seven days while it stays at or
  before the end.
\<close>

definition rollforward_sunday :: "timestamp \<Rightarrow> timestamp" where
  "rollforward_sunday d = d + (6 - weekday d)"

function weeks_from :: "timestamp \<Rightarrow> timestamp \<Rightarrow> timestamp list" where
  "weeks_from d e = (if d \<le> e then d # weeks_from (d + 7) e else [])"
  by pat_completeness auto
termination
  by (relation "measure (\<lambda>(d, e). nat (e + 1 - d))") auto

definition date_range_W_SUN :: "timestamp \<Rightarrow> timestamp \<Rightarrow> timestamp list" where
  "date_range_W_SUN start end = weeks_from (rollforward_sunday start) end"

section \<open>Configuration\<close>

text \<open>
  The value bound to \<^verbatim>\<open>YEAR\<close>. The module as shipped binds it to the tuple
  \<^verbatim>\<open>2021, 2022, 2023, 2024\<close>; a run for one target year binds it to an integer.
\<close>

datatype pyval = PyInt int | PyTuple "int list"

record config =
  YEAR :: pyval
  SEARCH_TERMS :: "string list"
  MAX_CITIES_PER_RUN :: int

definition shipped_config :: config where
  "shipped_config =
     \<lparr>YEAR = PyTuple [2021, 2022, 2023, 2024],
      SEARCH_TERMS = [''Fishing'', ''Bass Fishing'', ''Trout Fishing'', ''Fly Fishing'', ''Ice Fishing''],
      MAX_CITIES_PER_RUN = 50\<rparr>"

datatype exn =
  EmptyDataError | ParserError | DateParseError | OutOfBoundsDatetime
  | ConnectionError | OSError | ValueError

text \<open>
  \<^verbatim>\<open>pd.date_range(start=f'{year}-01-01', end=f'{year}-12-31', freq='W-SUN')\<close>.
  The two strings are ISO dates that pandas can hold at its nanosecond resolution only for
  an integer year from 1678 to 2261; for the tuple the strings are not dates at all. In
  both other cases the call raises.
\<close>

fun date_range :: "pyval \<Rightarrow> exn + timestamp list" where
  "date_range (PyInt y) =
     (if 1678 \<le> y \<and> y \<le> 2261
      then Inr (date_range_W_SUN (ordinal y 1 1) (ordinal y 12 31))
      else Inl OutOfBoundsDatetime)"
| "date_range (PyTuple ys) = Inl DateParseError"

section \<open>The external source and the trace of a run\<close>

text \<open>
  What \<^verbatim>\<open>interest_over_time()\<close> gives for one request: a frame of (week, value) rows,
  empty when the source has no data, or an exception with its message.
\<close>

datatype response = Frame "(timestamp \<times> int) list" | Raise string

text \<open>
  The world outside the program, as a function of the time at which it is consulted (the
  number of earlier consultations in the run): whether constructing the \<^verbatim>\<open>TrendReq\<close>
  session succeeds, what a request for a geo code and a term returns, and whether the
  checkpoint file can be opened for appending.
\<close>

record env =
  connect :: "nat \<Rightarrow> bool"
  interest_over_time :: "string \<Rightarrow> string \<Rightarrow> nat \<Rightarrow> response"
  writable :: "nat \<Rightarrow> bool"

text \<open>
  What a run does that can be observed: its sleeps, its requests, and the per-city lines of
  its log.
\<close>

datatype event =
  Sleep_uniform int int
  | Sleep int
  | Request string string
  | Starting_city string
  | Saved string nat
  | No_data string
  | Critical_failure string exn

record observation =
  date :: timestamp
  search_term :: string
  search_count :: int

text \<open>Python's \<^verbatim>\<open>needle in haystack\<close> on strings.\<close>

fun contains :: "string \<Rightarrow> string \<Rightarrow> bool" where
  "contains needle [] = (needle = [])"
| "contains needle (c # cs) =
     (take (length needle) (c # cs) = needle \<or> contains needle cs)"

section \<open>The unit fetcher\<close>

text \<open>The frame appended to \<^verbatim>\<open>all_data\<close> after a request that returned.\<close>

definition standardize :: "string \<Rightarrow> timestamp list \<Rightarrow> (timestamp \<times> int) list \<Rightarrow> observation list" where
  "standardize term dates data =
     (if data = []
      then map (\<lambda>d. \<lparr>date = d, search_term = term, search_count = 0\<rparr>) dates
      else map (\<lambda>(d, v). \<lparr>date = d, search_term = term, search_count = v\<rparr>) data)"

text \<open>
  The \<^verbatim>\<open>while retry_count < max_retries\<close> loop for one term, entered with the given
  retry count at the given time. It gives the events, the time afterwards, and the frame
  appended to \<^verbatim>\<open>all_data\<close> if one was.
\<close>

function attempts ::
  "env \<Rightarrow> string \<Rightarrow> string \<Rightarrow> timestamp list \<Rightarrow> int \<Rightarrow> int \<Rightarrow> nat
     \<Rightarrow> event list \<times> nat \<times> observation list option" where
  "attempts world geo term dates max_retries retry_count clk =
     (if retry_count < max_retries then
        (case interest_over_time world geo term clk of
           Frame data \<Rightarrow>
             ([Sleep_uniform 15 30, Request geo term], Suc clk,
              Some (standardize term dates data))
         | Raise msg \<Rightarrow>
             if contains ''429'' msg then
               (if retry_count + 1 < max_retries then
                  (case attempts world geo term dates max_retries (retry_count + 1) (Suc clk) of
                     (ev, clk', r) \<Rightarrow>
                       ([Sleep_uniform 15 30, Request geo term,
                         Sleep (2 ^ nat (retry_count + 1) * 60)] @ ev, clk', r))
                else ([Sleep_uniform 15 30, Request geo term], Suc clk, None))
             else ([Sleep_uniform 15 30, Request geo term, Sleep 5], Suc clk, None))
      else ([], clk, None))"
  by pat_completeness auto
termination
  by (relation "measure (\<lambda>(world, geo, term, dates, max_retries, retry_count, clk).
        nat (max_retries - retry_count))") auto

text \<open>The \<^verbatim>\<open>for term in keywords\<close> loop, collecting \<^verbatim>\<open>all_data\<close>.\<close>

fun fetch_terms ::
  "env \<Rightarrow> string \<Rightarrow> timestamp list \<Rightarrow> int \<Rightarrow> string list \<Rightarrow> nat
     \<Rightarrow> event list \<times> nat \<times> observation list list" where
  "fetch_terms world geo dates max_retries [] clk = ([], clk, [])"
| "fetch_terms world geo dates max_retries (term # keywords) clk =
     (case attempts world geo term dates max_retries 0 clk of
        (ev, clk1, r) \<Rightarrow>
          (case fetch_terms world geo dates max_retries keywords clk1 of
             (ev', clk2, all_data) \<Rightarrow>
               (ev @ ev', clk2, (case r of None \<Rightarrow> [] | Some data \<Rightarrow> [data]) @ all_data)))"

definition fetch_city_trends ::
  "env \<Rightarrow> string \<Rightarrow> string list \<Rightarrow> pyval \<Rightarrow> int \<Rightarrow> nat
     \<Rightarrow> event list \<times> nat \<times> (exn + observation list)" where
  "fetch_city_trends world geo keywords year max_retries clk =
     (if \<not> connect world clk then ([], Suc clk, Inl ConnectionError)
      else
        (case date_range year of
           Inl e \<Rightarrow> ([], Suc clk, Inl e)
         | Inr dates \<Rightarrow>
             (case fetch_terms world geo dates max_retries keywords (Suc clk) of
                (ev, clk', all_data) \<Rightarrow> (ev, clk', Inr (concat all_data)))))"

section \<open>The catalog and the durable store\<close>

record entity =
  location_name :: string
  geo_code :: string
  country :: string
  state_province :: string
  latitude :: real
  longitude :: real

text \<open>
  A field of a CSV record. In the file it is what \<^verbatim>\<open>to_csv\<close> wrote for a string, an
  integer, a float, a timestamp, a missing value or a boolean, and it stands for that text;
  in a frame it is the value pandas holds. \<open>CInf True\<close> is the float \<^verbatim>\<open>inf\<close>,
  \<open>CInf False\<close> is \<^verbatim>\<open>-inf\<close>.
\<close>

datatype cell =
  CStr string | CInt int | CFloat real | CDate timestamp | CNaN | CBool bool | CInf bool

text \<open>
  The checkpoint file: absent, or a table of lines of fields (the first line that is not
  blank is read as the header, whatever it holds; a line without fields is a blank line,
  and no line at all is the empty file), or contents that \<^verbatim>\<open>pd.read_csv\<close> cannot
  decode whatever is appended to them.
\<close>

datatype csv_file = Absent | Table "cell list list" | Corrupt

definition cols :: "cell list" where
  "cols = map CStr [''date'', ''latitude'', ''longitude'', ''country'', ''state'',
     ''search_count'', ''location'', ''geo_code'', ''search_term'', ''year'']"

text \<open>
  \<^verbatim>\<open>df.to_csv(OUTPUT_FILE, mode='a', header=not os.path.exists(OUTPUT_FILE), index=False)\<close>
\<close>

fun to_csv :: "csv_file \<Rightarrow> cell list list \<Rightarrow> csv_file" where
  "to_csv Absent records = Table (cols # records)"
| "to_csv (Table old) records = Table (old @ records)"
| "to_csv Corrupt records = Corrupt"

subsection \<open>What \<^verbatim>\<open>pd.read_csv\<close> makes of the text of a field\<close>

text \<open>
  With its default arguments \<^verbatim>\<open>pd.read_csv\<close> decides the type of each column from
  the texts of its fields. The strings it takes for a missing value:
\<close>

definition na_values :: "string list" where
  "na_values = [[], ''#N/A'', ''#N/A N/A'', ''#NA'', ''-1.#IND'', ''-1.#QNAN'', ''-NaN'',
     ''-nan'', ''1.#IND'', ''1.#QNAN'', ''<NA>'', ''N/A'', ''NA'', ''NULL'', ''NaN'', ''None'',
     ''n/a'', ''nan'', ''null'']"

text \<open>
  ASCII white space and digits, a string without the white space around it and without its
  sign, the number that a string of digits denotes, and the sign in front of it.
\<close>

definition isspace :: "char \<Rightarrow> bool" where
  "isspace c \<longleftrightarrow> c \<in> set [CHR '' '', CHR 0x09, CHR 0x0A, CHR 0x0B, CHR 0x0C, CHR 0x0D]"

definition isdigit :: "char \<Rightarrow> bool" where
  "isdigit c \<longleftrightarrow> c \<in> set ''0123456789''"

definition strip :: "string \<Rightarrow> string" where
  "strip s = rev (dropWhile isspace (rev (dropWhile isspace s)))"

definition unsigned :: "string \<Rightarrow> string" where
  "unsigned s = (if take 1 s = ''+'' \<or> take 1 s = ''-'' then tl s else s)"

definition digits_value :: "string \<Rightarrow> int" where
  "digits_value ds = foldl (\<lambda>n c. 10 * n + (int (of_char c) - 48)) 0 ds"

definition sign_of :: "string \<Rightarrow> int" where
  "sign_of s = (if take 1 s = ''-'' then - 1 else 1)"

text \<open>
  An integer: white space, an optional sign, one digit or more, white space
  (\<^verbatim>\<open>str_to_int64\<close> of the tokenizer).
\<close>

definition int_literal :: "string \<Rightarrow> int option" where
  "int_literal s =
     (let t = strip s; ds = unsigned t
      in if ds \<noteq> [] \<and> list_all isdigit ds then Some (sign_of t * digits_value ds) else None)"

text \<open>ASCII lower case, and a number of digits shifted by a power of ten.\<close>

definition lower :: "char \<Rightarrow> char" where
  "lower c = (if c \<in> set ''ABCDEFGHIJKLMNOPQRSTUVWXYZ'' then char_of (of_char c + (32 :: nat)) else c)"

definition scale :: "int \<Rightarrow> int \<Rightarrow> real" where
  "scale m e = (if 0 \<le> e then of_int m * 10 ^ nat e else of_int m / 10 ^ nat (- e))"

text \<open>
  A float: white space, an optional sign, digits with an optional decimal point and at
  least one digit, an optional exponent with at least one digit, white space
  (\<^verbatim>\<open>xstrtod\<close>); or one of the names of infinity, in any case. The value is the
  number that the text denotes.
\<close>

definition float_literal :: "string \<Rightarrow> cell option" where
  "float_literal s =
     (let t = strip s; body = unsigned t;
          int_part = takeWhile isdigit body; r1 = dropWhile isdigit body;
          point = (take 1 r1 = ''.'');
          frac_part = (if point then takeWhile isdigit (tl r1) else []);
          r2 = (if point then dropWhile isdigit (tl r1) else r1);
          ex = unsigned (tl r2)
      in if int_part @ frac_part \<noteq> [] \<and> r2 = [] then
           Some (CFloat (scale (sign_of t * digits_value (int_part @ frac_part))
                               (- int (length frac_part))))
         else if int_part @ frac_part \<noteq> [] \<and> (take 1 r2 = ''e'' \<or> take 1 r2 = ''E'')
                 \<and> ex \<noteq> [] \<and> list_all isdigit ex then
           Some (CFloat (scale (sign_of t * digits_value (int_part @ frac_part))
                               (sign_of (tl r2) * digits_value ex - int (length frac_part))))
         else if map lower s \<in> set [''inf'', ''infinity'', ''+inf'', ''+infinity''] then
           Some (CInf True)
         else if map lower s \<in> set [''-inf'', ''-infinity''] then Some (CInf False)
         else None)"

text \<open>A boolean: \<^verbatim>\<open>true\<close> or \<^verbatim>\<open>false\<close>, in any case (\<^verbatim>\<open>to_boolean\<close>).\<close>

definition bool_literal :: "string \<Rightarrow> bool option" where
  "bool_literal s =
     (if map lower s = ''true'' then Some True
      else if map lower s = ''false'' then Some False
      else None)"

text \<open>
  What a field is taken for: a missing value first, then an integer, then a float, then a
  boolean, and a string otherwise. The text of a timestamp is a string.
\<close>

datatype lexeme = Missing | Integer int | Floating cell | Boolean bool | Text

fun classify :: "cell \<Rightarrow> lexeme" where
  "classify (CStr s) =
     (if s \<in> set na_values then Missing
      else case int_literal s of
        Some i \<Rightarrow> Integer i
      | None \<Rightarrow>
          (case float_literal s of
             Some v \<Rightarrow> Floating v
           | None \<Rightarrow> (case bool_literal s of Some b \<Rightarrow> Boolean b | None \<Rightarrow> Text)))"
| "classify (CInt i) = Integer i"
| "classify (CFloat x) = Floating (CFloat x)"
| "classify (CInf b) = Floating (CInf b)"
| "classify (CBool b) = Boolean b"
| "classify (CDate d) = Text"
| "classify CNaN = Missing"

text \<open>
  The values of a column, from its fields. The types are tried in the order
  \<^verbatim>\<open>int64\<close>, \<^verbatim>\<open>float64\<close>, \<^verbatim>\<open>bool\<close>, \<^verbatim>\<open>object\<close>. Integers
  with a missing value among them are cast to floats, booleans with a missing value to
  objects; integers outside \<^verbatim>\<open>int64\<close> are read as \<^verbatim>\<open>uint64\<close> if all of them
  fit and none is missing, and are left as strings otherwise. In a column of strings every
  field is its text, and a missing value is \<^verbatim>\<open>NaN\<close>.
\<close>

definition as_int :: "cell \<Rightarrow> cell" where
  "as_int c = (case classify c of Integer i \<Rightarrow> CInt i | _ \<Rightarrow> CNaN)"

definition as_float :: "cell \<Rightarrow> cell" where
  "as_float c =
     (case classify c of Integer i \<Rightarrow> CFloat (of_int i) | Floating v \<Rightarrow> v | _ \<Rightarrow> CNaN)"

definition as_bool :: "cell \<Rightarrow> cell" where
  "as_bool c = (case classify c of Boolean b \<Rightarrow> CBool b | _ \<Rightarrow> CNaN)"

definition as_object :: "cell \<Rightarrow> cell" where
  "as_object c = (if classify c = Missing then CNaN else c)"

definition infer :: "cell list \<Rightarrow> cell list" where
  "infer tokens =
     (let ls = map classify tokens;
          ints = concat (map (\<lambda>l. case l of Integer i \<Rightarrow> [i] | _ \<Rightarrow> []) ls)
      in if list_all (\<lambda>l. case l of Missing \<Rightarrow> True | Integer i \<Rightarrow> True | _ \<Rightarrow> False) ls then
           (if list_all (\<lambda>i. - (2 ^ 63) \<le> i \<and> i < 2 ^ 63) ints then
              (if Missing \<in> set ls then map as_float tokens else map as_int tokens)
            else if Missing \<notin> set ls \<and> list_all (\<lambda>i. 0 \<le> i \<and> i < 2 ^ 64) ints then
              map as_int tokens
            else map as_object tokens)
         else if list_all (\<lambda>l. case l of Missing \<Rightarrow> True | Integer i \<Rightarrow> True
                                 | Floating v \<Rightarrow> True | _ \<Rightarrow> False) ls then
           map as_float tokens
         else if list_all (\<lambda>l. case l of Missing \<Rightarrow> True | Boolean b \<Rightarrow> True | _ \<Rightarrow> False) ls then
           map as_bool tokens
         else map as_object tokens)"

subsection \<open>Reading the file\<close>

definition field_at :: "cell list \<Rightarrow> nat \<Rightarrow> cell" where
  "field_at r i = (if i < length r then r ! i else CNaN)"

text \<open>
  The number of fields the tokenizer expects in a record, from the header and the first
  record: a record with fewer fields is filled up with missing values, and a first record
  with more fields than the header has its leading fields taken as the index.
\<close>

definition width :: "cell list \<Rightarrow> cell list list \<Rightarrow> nat" where
  "width columns records =
     (case records of [] \<Rightarrow> length columns | r # rs \<Rightarrow> max (length columns) (length r))"

text \<open>The frame: each column name of the header with the values of its column.\<close>

definition frame :: "cell list \<Rightarrow> cell list list \<Rightarrow> (cell \<times> cell list) list" where
  "frame columns records =
     (let leading = width columns records - length columns
      in map (\<lambda>j. (columns ! j, infer (map (\<lambda>r. field_at r (leading + j)) records)))
           [0 ..< length columns])"

text \<open>
  \<^verbatim>\<open>pd.read_csv\<close> on a file that exists. Blank lines are skipped; a file without any
  other line raises \<^verbatim>\<open>EmptyDataError\<close>; a record with more fields than expected
  raises \<^verbatim>\<open>ParserError\<close>.
\<close>

fun read_csv :: "csv_file \<Rightarrow> exn + (cell \<times> cell list) list" where
  "read_csv (Table ls) =
     (case filter (\<lambda>l. l \<noteq> []) ls of
        [] \<Rightarrow> Inl EmptyDataError
      | columns # records \<Rightarrow>
          if \<exists>r \<in> set records. width columns records < length r then Inl ParserError
          else Inr (frame columns records))"
| "read_csv Corrupt = Inl ParserError"
| "read_csv Absent = Inl OSError"

text \<open>
  \<^verbatim>\<open>'geo_code' in df_done.columns\<close> asks for a column of that name, and
  \<^verbatim>\<open>df_done['geo_code']\<close> is the first one.
\<close>

definition get_completed_cities :: "csv_file \<Rightarrow> exn + cell set" where
  "get_completed_cities f =
     (if f = Absent then Inr {}
      else
        (case read_csv f of
           Inl e \<Rightarrow> (if e = EmptyDataError then Inr {} else Inl e)
         | Inr df_done \<Rightarrow>
             (case map_of df_done (CStr ''geo_code'') of
                Some codes \<Rightarrow> Inr (set codes)
              | None \<Rightarrow> Inr {})))"

section \<open>The run driver\<close>

text \<open>
  \<^verbatim>\<open>df_trends['year'] = YEAR\<close> on a frame of \<open>n\<close> rows: a scalar fills the column, a
  sequence must have the length of the frame.
\<close>

fun year_column :: "pyval \<Rightarrow> nat \<Rightarrow> exn + cell list" where
  "year_column (PyInt y) n = Inr (replicate n (CInt y))"
| "year_column (PyTuple ys) n = (if length ys = n then Inr (map CInt ys) else Inl ValueError)"

text \<open>One record of the checkpoint file, in the column order \<open>cols\<close>.\<close>

definition to_record :: "entity \<Rightarrow> observation \<Rightarrow> cell \<Rightarrow> cell list" where
  "to_record row ob y =
     [CDate (date ob), CFloat (latitude row), CFloat (longitude row), CStr (country row),
      CStr (state_province row), CInt (search_count ob), CStr (location_name row),
      CStr (geo_code row), CStr (search_term ob), y]"

record run_state =
  store :: csv_file
  clock :: nat
  successful_cities :: nat
  failed_cities :: nat
  trace :: "event list"
  stopped :: "exn option"

text \<open>The \<^verbatim>\<open>except Exception as e\<close> branch of the loop body.\<close>

definition critical_failure ::
  "run_state \<Rightarrow> string \<Rightarrow> event list \<Rightarrow> nat \<Rightarrow> exn \<Rightarrow> run_state" where
  "critical_failure st geo ev clk e =
     st\<lparr>clock := clk, failed_cities := failed_cities st + 1,
        trace := trace st @ Starting_city geo # ev @ [Critical_failure geo e],
        stopped := Some e\<rparr>"

text \<open>
  The body of the \<^verbatim>\<open>for index, row in cities_to_process.iterrows()\<close> loop. An
  exception that escapes the body is kept in \<open>stopped\<close>, which stands for the
  \<^verbatim>\<open>break\<close> of the handler.
\<close>

definition process_city :: "env \<Rightarrow> config \<Rightarrow> run_state \<Rightarrow> entity \<Rightarrow> run_state" where
  "process_city world cfg st row =
     (let geo = geo_code row in
      case fetch_city_trends world geo (SEARCH_TERMS cfg) (YEAR cfg) 3 (clock st) of
        (ev, clk, Inl e) \<Rightarrow> critical_failure st geo ev clk e
      | (ev, clk, Inr df_trends) \<Rightarrow>
          if df_trends \<noteq> [] then
            (case year_column (YEAR cfg) (length df_trends) of
               Inl e \<Rightarrow> critical_failure st geo ev clk e
             | Inr years \<Rightarrow>
                 if writable world clk then
                   st\<lparr>store := to_csv (store st) (map2 (to_record row) df_trends years),
                      clock := Suc clk,
                      successful_cities := successful_cities st + 1,
                      trace := trace st @ Starting_city geo # ev
                               @ [Saved geo (length df_trends), Sleep_uniform 30 60]\<rparr>
                 else critical_failure st geo ev (Suc clk) OSError)
          else
            st\<lparr>clock := clk, failed_cities := failed_cities st + 1,
               trace := trace st @ Starting_city geo # ev @ [No_data geo, Sleep_uniform 30 60]\<rparr>)"

fun process_cities :: "env \<Rightarrow> config \<Rightarrow> run_state \<Rightarrow> entity list \<Rightarrow> run_state" where
  "process_cities world cfg st [] = st"
| "process_cities world cfg st (row # rows) =
     (let st' = process_city world cfg st row
      in if stopped st' \<noteq> None then st' else process_cities world cfg st' rows)"

text \<open>\<^verbatim>\<open>DataFrame.head(n)\<close>: the first \<open>n\<close> rows, or all but the last \<open>-n\<close> for a negative \<open>n\<close>.\<close>

definition head :: "int \<Rightarrow> 'a list \<Rightarrow> 'a list" where
  "head n xs = (if 0 \<le> n then take (nat n) xs else take (length xs - nat (- n)) xs)"

text \<open>\<^verbatim>\<open>df_cities[~df_cities['geo_code'].isin(completed_geos)]\<close>\<close>

definition remaining_work :: "entity list \<Rightarrow> cell set \<Rightarrow> entity list" where
  "remaining_work df_cities completed_geos =
     filter (\<lambda>row. CStr (geo_code row) \<notin> completed_geos) df_cities"

definition cities_to_process :: "config \<Rightarrow> entity list \<Rightarrow> cell set \<Rightarrow> entity list" where
  "cities_to_process cfg df_cities completed_geos =
     head (MAX_CITIES_PER_RUN cfg) (remaining_work df_cities completed_geos)"

definition initial :: "csv_file \<Rightarrow> run_state" where
  "initial f =
     \<lparr>store = f, clock = 0, successful_cities = 0, failed_cities = 0, trace = [],
      stopped = None\<rparr>"

text \<open>
  One invocation of the script on a catalog and a checkpoint file: the state after the
  loop, and the completed-set read back for the closing report. An exception of
  \<^verbatim>\<open>get_completed_cities\<close> is not caught and ends the script.
\<close>

definition run :: "env \<Rightarrow> config \<Rightarrow> entity list \<Rightarrow> csv_file \<Rightarrow> exn + run_state \<times> cell set" where
  "run world cfg df_cities f =
     (case get_completed_cities f of
        Inl e \<Rightarrow> Inl e
      | Inr completed_geos \<Rightarrow>
          (let st = process_cities world cfg (initial f)
                      (cities_to_process cfg df_cities completed_geos)
           in case get_completed_cities (store st) of
                Inl e \<Rightarrow> Inl e
              | Inr completed \<Rightarrow> Inr (st, completed)))"

section \<open>Notions used to state the properties\<close>

text \<open>A response that is an exception whose message holds \<^verbatim>\<open>429\<close>: the rate-limit signal.\<close>

definition rate_limited :: "response \<Rightarrow> bool" where
  "rate_limited r = (case r of Raise msg \<Rightarrow> contains ''429'' msg | Frame data \<Rightarrow> False)"

text \<open>The week-ending Sundays of a calendar year.\<close>

definition sundays_of :: "int \<Rightarrow> timestamp set" where
  "sundays_of y = {d. ordinal y 1 1 \<le> d \<and> d \<le> ordinal y 12 31 \<and> weekday d = 6}"

text \<open>How often a trace requests a term for a geo code.\<close>

definition requests :: "string \<Rightarrow> string \<Rightarrow> event list \<Rightarrow> nat" where
  "requests geo term ev = length (filter (\<lambda>e. e = Request geo term) ev)"

text \<open>
  The trace of \<open>k\<close> attempts that were each answered by the rate-limit signal and followed
  by a retry: the pause before the attempt, the attempt, and the wait after it.
\<close>

definition backoff :: "string \<Rightarrow> string \<Rightarrow> nat \<Rightarrow> event list" where
  "backoff geo term k =
     concat (map (\<lambda>i. [Sleep_uniform 15 30, Request geo term, Sleep (2 ^ (i + 1) * 60)]) [0 ..< k])"

text \<open>The geo codes of the cities a trace starts on, in order.\<close>

definition attempted :: "event list \<Rightarrow> string list" where
  "attempted ev = concat (map (\<lambda>e. case e of Starting_city geo \<Rightarrow> [geo] | _ \<Rightarrow> []) ev)"

text \<open>A checkpoint file as the script leaves it when it starts without one.\<close>

definition has_header :: "csv_file \<Rightarrow> bool" where
  "has_header f = (case f of Absent \<Rightarrow> True | Table ls \<Rightarrow> take 1 ls = [cols] | Corrupt \<Rightarrow> False)"

text \<open>The records of a file, the header aside.\<close>

definition records_of :: "csv_file \<Rightarrow> cell list list" where
  "records_of f = (case f of Table ls \<Rightarrow> tl ls | _ \<Rightarrow> [])"

text \<open>A file, or no file, in which every line is blank or has the ten fields of \<open>cols\<close>.\<close>

definition regular :: "csv_file \<Rightarrow> bool" where
  "regular f =
     (case f of Absent \<Rightarrow> True
      | Table ls \<Rightarrow> (\<forall>l \<in> set ls. l = [] \<or> length l = length cols)
      | Corrupt \<Rightarrow> False)"

text \<open>Every record of the file has the ten fields of \<open>cols\<close>.\<close>

definition ten_fields :: "csv_file \<Rightarrow> bool" where
  "ten_fields f \<longleftrightarrow> (\<forall>r \<in> set (records_of f). length r = length cols)"


text \<open>The events the run driver logs for a city, as against those of the unit fetcher.\<close>

definition city_event :: "event \<Rightarrow> bool" where
  "city_event e =
     (case e of Starting_city geo \<Rightarrow> True | Saved geo n \<Rightarrow> True | No_data geo \<Rightarrow> True
      | Critical_failure geo x \<Rightarrow> True | _ \<Rightarrow> False)"

text \<open>Two invocations in sequence, the second on the file the first one left.\<close>

definition run_twice ::
  "env \<Rightarrow> env \<Rightarrow> config \<Rightarrow> entity list \<Rightarrow> csv_file
     \<Rightarrow> exn + (run_state \<times> cell set) \<times> (run_state \<times> cell set)" where
  "run_twice world1 world2 cfg df_cities f =
     (case run world1 cfg df_cities f of
        Inl e \<Rightarrow> Inl e
      | Inr (st1, completed1) \<Rightarrow>
          (case run world2 cfg df_cities (store st1) of
             Inl e \<Rightarrow> Inl e
           | Inr (st2, completed2) \<Rightarrow> Inr ((st1, completed1), (st2, completed2))))"

text \<open>The (entity code, keyword, week) of a record written in the column order \<open>cols\<close>.\<close>

definition triple :: "cell list \<Rightarrow> cell \<times> cell \<times> cell" where
  "triple r = (field_at r 7, field_at r 8, field_at r 0)"

section \<open>Example inputs\<close>

definition us_a :: entity where
  "us_a = \<lparr>location_name = ''Aston'', geo_code = ''US-A'', country = ''US'',
     state_province = ''NY'', latitude = 40, longitude = - 70\<rparr>"

definition us_b :: entity where
  "us_b = \<lparr>location_name = ''Burke'', geo_code = ''US-B'', country = ''US'',
     state_province = ''VA'', latitude = 38, longitude = - 77\<rparr>"

definition us_c :: entity where
  "us_c = \<lparr>location_name = ''Casco'', geo_code = ''US-C'', country = ''US'',
     state_province = ''ME'', latitude = 44, longitude = - 70\<rparr>"

text \<open>An entity whose geo code is made of digits.\<close>

definition us_d :: entity where
  "us_d = \<lparr>location_name = ''Dover'', geo_code = ''123'', country = ''US'',
     state_province = ''DE'', latitude = 39, longitude = - 75\<rparr>"

definition example_config :: config where
  "example_config = \<lparr>YEAR = PyInt 2023, SEARCH_TERMS = [''X''], MAX_CITIES_PER_RUN = 50\<rparr>"

definition small_quota_config :: config where
  "small_quota_config = \<lparr>YEAR = PyInt 2023, SEARCH_TERMS = [''X''], MAX_CITIES_PER_RUN = 2\<rparr>"

definition one_city_config :: config where
  "one_city_config = \<lparr>YEAR = PyInt 2023, SEARCH_TERMS = [''X''], MAX_CITIES_PER_RUN = 1\<rparr>"

text \<open>A source with no data for anything, and nothing that fails.\<close>

definition quiet_world :: env where
  "quiet_world =
     \<lparr>connect = (\<lambda>n. True), interest_over_time = (\<lambda>geo term n. Frame []),
      writable = (\<lambda>n. True)\<rparr>"

text \<open>A source that answers every request with the rate-limit error of pytrends.\<close>

definition throttled_world :: env where
  "throttled_world =
     \<lparr>connect = (\<lambda>n. True),
      interest_over_time =
        (\<lambda>geo term n. Raise ''The request failed: Google returned a response with code 429''),
      writable = (\<lambda>n. True)\<rparr>"

text \<open>The quiet source, with a checkpoint file that cannot be opened for appending.\<close>

definition read_only_world :: env where
  "read_only_world =
     \<lparr>connect = (\<lambda>n. True), interest_over_time = (\<lambda>geo term n. Frame []),
      writable = (\<lambda>n. False)\<rparr>"

text \<open>
  A checkpoint file left by another program: a header without \<^verbatim>\<open>geo_code\<close> and one
  record under it.
\<close>

definition foreign_file :: csv_file where
  "foreign_file = Table [[CStr ''date'', CStr ''city''], [CDate (ordinal 2023 1 1), CStr ''US-A'']]"


text \<open>The record the driver writes for a week without data.\<close>

definition zero_record :: "entity \<Rightarrow> string \<Rightarrow> int \<Rightarrow> timestamp \<Rightarrow> cell list" where
  "zero_record row term y d =
     [CDate d, CFloat (latitude row), CFloat (longitude row), CStr (country row),
      CStr (state_province row), CInt 0, CStr (location_name row), CStr (geo_code row),
      CStr term, CInt y]"

section \<open>Lemmas\<close>

subsection \<open>The weekly date range\<close>

declare weeks_from.simps [simp del]

lemma weeks_step:
  "d \<le> e \<Longrightarrow> {x. d \<le> x \<and> x \<le> e \<and> (x - d) mod 7 = 0}
        = insert d {x. d + 7 \<le> x \<and> x \<le> e \<and> (x - (d + 7)) mod 7 = 0}" for d e :: int
proof (rule set_eqI)
  fix x :: int
  assume de: "d \<le> e"
  have "(d \<le> x \<and> x \<le> e \<and> (x - d) mod 7 = 0) = (x = d \<or> (d + 7 \<le> x \<and> x \<le> e \<and> (x - (d + 7)) mod 7 = 0))"
    using de by presburger
  then show "x \<in> {x. d \<le> x \<and> x \<le> e \<and> (x - d) mod 7 = 0}
     \<longleftrightarrow> x \<in> insert d {x. d + 7 \<le> x \<and> x \<le> e \<and> (x - (d + 7)) mod 7 = 0}"
    by simp
qed

lemma set_weeks_from:
  "set (weeks_from d e) = {x. d \<le> x \<and> x \<le> e \<and> (x - d) mod 7 = 0}"
proof (induction d e rule: weeks_from.induct)
  case (1 d e)
  show ?case
  proof (cases "d \<le> e")
    case True
    with 1 weeks_step[OF True] show ?thesis
      by (subst weeks_from.simps) simp
  next
    case False
    then show ?thesis
      by (subst weeks_from.simps) auto
  qed
qed

lemma distinct_weeks_from: "distinct (weeks_from d e)"
proof (induction d e rule: weeks_from.induct)
  case (1 d e)
  then show ?case
    by (subst weeks_from.simps) (simp add: set_weeks_from)
qed

lemma rollforward_eq: "rollforward_sunday d = 7 * ((d + 6) div 7)"
  unfolding weekday_def rollforward_sunday_def
  using div_mult_mod_eq[of "d + 6" 7] by linarith

lemma weekday_rollforward: "weekday (rollforward_sunday d) = 6"
  unfolding rollforward_eq weekday_def by simp

lemma rollforward_bounds: "d \<le> rollforward_sunday d \<and> rollforward_sunday d < d + 7"
proof -
  have "0 \<le> (d + 6) mod 7" "(d + 6) mod 7 < 7" by simp_all
  then show ?thesis
    unfolding weekday_def rollforward_sunday_def by linarith
qed

lemma sunday_iff: "weekday x = 6 \<longleftrightarrow> x mod 7 = 0"
  unfolding weekday_def by presburger

lemma first_sunday_le:
  fixes s x :: int
  assumes "x mod 7 = 0"
  shows "7 * ((s + 6) div 7) \<le> x \<longleftrightarrow> s \<le> x"
proof
  assume "7 * ((s + 6) div 7) \<le> x"
  moreover have "s \<le> 7 * ((s + 6) div 7)"
    using rollforward_bounds[of s] by (simp add: rollforward_eq)
  ultimately show "s \<le> x" by linarith
next
  assume sx: "s \<le> x"
  from assms obtain j where x: "x = 7 * j" by (metis mod_eq_0_iff_dvd dvd_def)
  have "(s + 6) div 7 \<le> (x + 6) div 7"
    using sx by (intro zdiv_mono1) simp_all
  also have "(x + 6) div 7 = j" unfolding x by simp
  finally show "7 * ((s + 6) div 7) \<le> x" unfolding x by simp
qed

lemma set_date_range_W_SUN:
  "set (date_range_W_SUN s e) = {x. s \<le> x \<and> x \<le> e \<and> weekday x = 6}"
proof (rule set_eqI)
  fix x
  have m: "(x - 7 * ((s + 6) div 7)) mod 7 = x mod 7"
    by (metis mod_mult_self1_is_0 mod_diff_right_eq diff_zero mod_mod_trivial)
  show "x \<in> set (date_range_W_SUN s e) \<longleftrightarrow> x \<in> {x. s \<le> x \<and> x \<le> e \<and> weekday x = 6}"
    unfolding date_range_W_SUN_def set_weeks_from rollforward_eq sunday_iff
    using first_sunday_le[of x s] by (auto simp: m)
qed

lemma distinct_date_range_W_SUN: "distinct (date_range_W_SUN s e)"
  unfolding date_range_W_SUN_def by (rule distinct_weeks_from)

lemma days_before_month_1: "days_before_month y 1 = 0"
  unfolding days_before_month_def by simp

lemma days_before_month_12: "days_before_month y 12 = (if is_leap y then 335 else 334)"
proof -
  have "[1 ..< nat 12] = [1, 2, 3, 4, 5, 6, 7, 8, 9, 10, 11]"
    by (simp add: upt_rec)
  then show ?thesis
    unfolding days_before_month_def days_in_month_def by simp
qed

lemma year_days: "ordinal y 12 31 = ordinal y 1 1 + (if is_leap y then 365 else 364)"
  unfolding ordinal_def days_before_month_12 days_before_month_1 by simp

lemma weeks_from_nonempty: "d \<le> e \<Longrightarrow> weeks_from d e \<noteq> []"
  by (subst weeks_from.simps) simp

lemma date_range_W_SUN_year_nonempty: "date_range_W_SUN (ordinal y 1 1) (ordinal y 12 31) \<noteq> []"
proof -
  have "rollforward_sunday (ordinal y 1 1) \<le> ordinal y 12 31"
    using rollforward_bounds[of "ordinal y 1 1"] year_days[of y] by (simp split: if_splits)
  then show ?thesis
    unfolding date_range_W_SUN_def by (rule weeks_from_nonempty)
qed

lemma date_range_PyInt:
  assumes "1678 \<le> y" "y \<le> 2261"
  shows "\<exists>ds. date_range (PyInt y) = Inr ds \<and> distinct ds \<and> set ds = sundays_of y \<and> ds \<noteq> []"
  using assms
  by (simp add: sundays_of_def set_date_range_W_SUN distinct_date_range_W_SUN
      date_range_W_SUN_year_nonempty)

lemma date_range_2023: "date_range (PyInt 2023) = Inr (map (\<lambda>k. ordinal 2023 1 1 + 7 * int k) [0 ..< 53])"
  by code_simp

subsection \<open>The retry loop\<close>

declare attempts.simps [simp del]

lemma attempts_done: "\<not> retry_count < max_retries \<Longrightarrow>
  attempts world geo term dates max_retries retry_count clk = ([], clk, None)"
  by (subst attempts.simps) simp

lemma attempts_frame:
  "retry_count < max_retries \<Longrightarrow> interest_over_time world geo term clk = Frame data \<Longrightarrow>
   attempts world geo term dates max_retries retry_count clk =
     ([Sleep_uniform 15 30, Request geo term], Suc clk, Some (standardize term dates data))"
  by (subst attempts.simps) simp

lemma attempts_retry:
  "retry_count + 1 < max_retries \<Longrightarrow> rate_limited (interest_over_time world geo term clk) \<Longrightarrow>
   attempts world geo term dates max_retries retry_count clk =
     (case attempts world geo term dates max_retries (retry_count + 1) (Suc clk) of
        (ev, clk', r) \<Rightarrow>
          ([Sleep_uniform 15 30, Request geo term, Sleep (2 ^ nat (retry_count + 1) * 60)] @ ev,
           clk', r))"
  by (subst attempts.simps) (auto simp: rate_limited_def split: response.splits)

lemma attempts_give_up:
  "retry_count < max_retries \<Longrightarrow> \<not> retry_count + 1 < max_retries \<Longrightarrow>
   rate_limited (interest_over_time world geo term clk) \<Longrightarrow>
   attempts world geo term dates max_retries retry_count clk =
     ([Sleep_uniform 15 30, Request geo term], Suc clk, None)"
  by (subst attempts.simps) (auto simp: rate_limited_def split: response.splits)

text \<open>
  An exception that is not the rate-limit signal ends the loop for the keyword after a
  sleep of five seconds.
\<close>

lemma attempts_other_error:
  "retry_count < max_retries \<Longrightarrow> interest_over_time world geo term clk = Raise msg \<Longrightarrow>
   \<not> contains ''429'' msg \<Longrightarrow>
   attempts world geo term dates max_retries retry_count clk =
     ([Sleep_uniform 15 30, Request geo term, Sleep 5], Suc clk, None)"
  by (subst attempts.simps) simp

lemma attempts_backoff_from:
  assumes "\<forall>i<k. rate_limited (interest_over_time world geo term (clk + i))"
    and "int (j + k) < max_retries"
  shows "attempts world geo term dates max_retries (int j) clk =
     (case attempts world geo term dates max_retries (int (j + k)) (clk + k) of
        (ev, clk', r) \<Rightarrow>
          (concat (map (\<lambda>i. [Sleep_uniform 15 30, Request geo term, Sleep (2 ^ (i + 1) * 60)])
             [j ..< j + k]) @ ev, clk', r))"
  using assms
proof (induction k arbitrary: j clk)
  case 0
  then show ?case by (simp split: prod.splits)
next
  case (Suc k)
  have rl: "rate_limited (interest_over_time world geo term clk)"
    using Suc.prems(1) by (metis add.right_neutral zero_less_Suc)
  have rest: "\<forall>i<k. rate_limited (interest_over_time world geo term (Suc clk + i))"
    using Suc.prems(1) by (metis Suc_less_eq add_Suc_shift)
  have lt: "int j + 1 < max_retries" using Suc.prems(2) by simp
  have ih: "attempts world geo term dates max_retries (int (Suc j)) (Suc clk) =
     (case attempts world geo term dates max_retries (int (Suc j + k)) (Suc clk + k) of
        (ev, clk', r) \<Rightarrow>
          (concat (map (\<lambda>i. [Sleep_uniform 15 30, Request geo term, Sleep (2 ^ (i + 1) * 60)])
             [Suc j ..< Suc j + k]) @ ev, clk', r))"
    using Suc.IH[OF rest, of "Suc j"] Suc.prems(2) by simp
  have n: "nat (int j + 1) = Suc j" by simp
  have up: "[j ..< j + Suc k] = j # [Suc j ..< Suc j + k]"
    by (simp add: upt_conv_Cons)
  have i1: "int j + 1 = int (Suc j)" by simp
  show ?case
    unfolding attempts_retry[OF lt rl] n up
    unfolding i1 ih
    by (simp split: prod.splits)
qed

lemma attempts_backoff:
  assumes "\<forall>i<k. rate_limited (interest_over_time world geo term (clk + i))"
    and "int k < max_retries"
  shows "attempts world geo term dates max_retries 0 clk =
     (case attempts world geo term dates max_retries (int k) (clk + k) of
        (ev, clk', r) \<Rightarrow> (backoff geo term k @ ev, clk', r))"
  using attempts_backoff_from[of k world geo "term" clk 0 max_retries dates] assms
  by (simp add: backoff_def)

lemma attempts_exhausted:
  assumes "\<forall>i<nat max_retries. rate_limited (interest_over_time world geo term (clk + i))"
    and "0 < max_retries"
  shows "attempts world geo term dates max_retries 0 clk =
     (backoff geo term (nat max_retries - 1) @ [Sleep_uniform 15 30, Request geo term],
      clk + nat max_retries, None)"
proof -
  let ?k = "nat max_retries - 1"
  have k: "int ?k < max_retries" "int ?k + 1 = max_retries" using assms(2) by auto
  have a: "\<forall>i<?k. rate_limited (interest_over_time world geo term (clk + i))"
    using assms(1) by auto
  have "?k < nat max_retries" using assms(2) by simp
  then have l: "rate_limited (interest_over_time world geo term (clk + ?k))"
    using assms(1) by blast
  have "attempts world geo term dates max_retries (int ?k) (clk + ?k) =
     ([Sleep_uniform 15 30, Request geo term], Suc (clk + ?k), None)"
    using k by (intro attempts_give_up l) auto
  moreover have "Suc (clk + ?k) = clk + nat max_retries" using assms(2) by auto
  ultimately show ?thesis
    unfolding attempts_backoff[OF a k(1)] by simp
qed

lemma requests_backoff: "requests geo term (backoff geo term k) = k"
  by (induction k) (simp_all add: requests_def backoff_def)

lemma requests_append: "requests geo term (xs @ ys) = requests geo term xs + requests geo term ys"
  by (simp add: requests_def)

subsection \<open>The loop over the terms\<close>

lemma fetch_terms_append:
  "fetch_terms world geo dates max_retries (xs @ ys) clk =
     (case fetch_terms world geo dates max_retries xs clk of
        (ev1, clk1, data1) \<Rightarrow>
          (case fetch_terms world geo dates max_retries ys clk1 of
             (ev2, clk2, data2) \<Rightarrow> (ev1 @ ev2, clk2, data1 @ data2)))"
  by (induction xs arbitrary: clk) (auto split: prod.splits)

lemma attempts_all_rate_limited:
  assumes "\<forall>n. rate_limited (interest_over_time world geo term n)"
  shows "\<exists>ev. attempts world geo term dates max_retries 0 clk = (ev, clk + nat max_retries, None)
            \<and> requests geo term ev = nat max_retries"
proof (cases "0 < max_retries")
  case True
  have "\<forall>i<nat max_retries. rate_limited (interest_over_time world geo term (clk + i))"
    using assms by simp
  from attempts_exhausted[OF this True, of dates] True show ?thesis
    by (simp add: requests_append requests_backoff) (simp add: requests_def)
next
  case False
  then show ?thesis
    by (simp add: attempts_done requests_def)
qed

lemma search_term_standardize:
  "ob \<in> set (standardize term dates data) \<Longrightarrow> search_term ob = term"
  by (auto simp: standardize_def split: if_splits)

lemma attempts_search_term:
  "attempts world geo term dates max_retries retry_count clk = (ev, clk', Some data) \<Longrightarrow>
   ob \<in> set data \<Longrightarrow> search_term ob = term"
proof (induction world geo "term" dates max_retries retry_count clk arbitrary: ev clk' data
    rule: attempts.induct)
  case (1 world geo t dates max_retries retry_count clk)
  from "1.prems" "1.IH" show ?case
    by (subst (asm) attempts.simps)
      (auto split: if_splits response.splits prod.splits simp: search_term_standardize)
qed

lemma fetch_terms_Cons:
  obtains ev0 clk0 r0 ev1 clk1 data1 where
    "attempts world geo t dates max_retries 0 clk = (ev0, clk0, r0)"
    "fetch_terms world geo dates max_retries kws clk0 = (ev1, clk1, data1)"
    "fetch_terms world geo dates max_retries (t # kws) clk =
       (ev0 @ ev1, clk1, (case r0 of None \<Rightarrow> [] | Some data \<Rightarrow> [data]) @ data1)"
proof -
  obtain ev0 clk0 r0 where a: "attempts world geo t dates max_retries 0 clk = (ev0, clk0, r0)"
    by (metis prod_cases3)
  obtain ev1 clk1 data1 where
    b: "fetch_terms world geo dates max_retries kws clk0 = (ev1, clk1, data1)"
    by (metis prod_cases3)
  from a b that show thesis by simp
qed

lemma fetch_terms_search_term:
  "fetch_terms world geo dates max_retries kws clk = (ev, clk', all_data) \<Longrightarrow>
   fr \<in> set all_data \<Longrightarrow> ob \<in> set fr \<Longrightarrow> search_term ob \<in> set kws"
proof (induction kws arbitrary: clk ev clk' all_data)
  case Nil
  then show ?case by simp
next
  case (Cons t kws)
  obtain ev0 clk0 r0 ev1 clk1 data1 where
    a: "attempts world geo t dates max_retries 0 clk = (ev0, clk0, r0)" and
    b: "fetch_terms world geo dates max_retries kws clk0 = (ev1, clk1, data1)" and
    c: "fetch_terms world geo dates max_retries (t # kws) clk =
       (ev0 @ ev1, clk1, (case r0 of None \<Rightarrow> [] | Some data \<Rightarrow> [data]) @ data1)"
    by (rule fetch_terms_Cons)
  from c Cons.prems(1) have ad: "all_data = (case r0 of None \<Rightarrow> [] | Some data \<Rightarrow> [data]) @ data1"
    by simp
  from Cons.prems(2) ad consider "r0 = Some fr" | "fr \<in> set data1"
    by (auto split: option.splits)
  then show ?case
  proof cases
    case 1
    with a Cons.prems(3) have "search_term ob = t" by (auto dest: attempts_search_term)
    then show ?thesis by simp
  next
    case 2
    from Cons.IH[OF b 2 Cons.prems(3)] show ?thesis by simp
  qed
qed

lemma fetch_terms_none_for_rate_limited:
  assumes "\<forall>n. rate_limited (interest_over_time world geo term n)"
  shows "fetch_terms world geo dates max_retries kws clk = (ev, clk', all_data) \<Longrightarrow>
   fr \<in> set all_data \<Longrightarrow> ob \<in> set fr \<Longrightarrow> search_term ob \<noteq> term"
proof (induction kws arbitrary: clk ev clk' all_data)
  case Nil
  then show ?case by simp
next
  case (Cons t kws)
  obtain ev0 clk0 r0 ev1 clk1 data1 where
    a: "attempts world geo t dates max_retries 0 clk = (ev0, clk0, r0)" and
    b: "fetch_terms world geo dates max_retries kws clk0 = (ev1, clk1, data1)" and
    c: "fetch_terms world geo dates max_retries (t # kws) clk =
       (ev0 @ ev1, clk1, (case r0 of None \<Rightarrow> [] | Some data \<Rightarrow> [data]) @ data1)"
    by (rule fetch_terms_Cons)
  from c Cons.prems(1) have ad: "all_data = (case r0 of None \<Rightarrow> [] | Some data \<Rightarrow> [data]) @ data1"
    by simp
  from Cons.prems(2) ad consider "r0 = Some fr" | "fr \<in> set data1"
    by (auto split: option.splits)
  then show ?case
  proof cases
    case 1
    with a Cons.prems(3) have t: "search_term ob = t" by (auto dest: attempts_search_term)
    have "t \<noteq> term"
    proof
      assume "t = term"
      with attempts_all_rate_limited[OF assms, of dates max_retries clk] a 1
      show False by auto
    qed
    with t show ?thesis by simp
  next
    case 2
    from Cons.IH[OF b 2 Cons.prems(3)] show ?thesis .
  qed
qed

lemma fetch_terms_rate_limited_Cons:
  assumes "\<forall>n. rate_limited (interest_over_time world geo term n)"
  obtains ev2 where
    "attempts world geo term dates max_retries 0 clk = (ev2, clk + nat max_retries, None)"
    "requests geo term ev2 = nat max_retries"
    "fetch_terms world geo dates max_retries (term # kws) clk =
       (case fetch_terms world geo dates max_retries kws (clk + nat max_retries) of
          (ev3, clk3, data3) \<Rightarrow> (ev2 @ ev3, clk3, data3))"
proof -
  from attempts_all_rate_limited[OF assms, of dates max_retries clk] obtain ev2 where
    a: "attempts world geo term dates max_retries 0 clk = (ev2, clk + nat max_retries, None)"
    and r: "requests geo term ev2 = nat max_retries"
    by blast
  from a have "fetch_terms world geo dates max_retries (term # kws) clk =
       (case fetch_terms world geo dates max_retries kws (clk + nat max_retries) of
          (ev3, clk3, data3) \<Rightarrow> (ev2 @ ev3, clk3, data3))"
    by (simp split: prod.splits)
  with a r that show thesis by blast
qed

lemma filter_concat_none:
  "(\<And>fr ob. fr \<in> set all_data \<Longrightarrow> ob \<in> set fr \<Longrightarrow> \<not> P ob) \<Longrightarrow> filter P (concat all_data) = []"
  by (induction all_data) (auto simp: filter_empty_conv)

lemma attempts_empty_frame:
  "0 < max_retries \<Longrightarrow> interest_over_time world geo term clk = Frame [] \<Longrightarrow>
   attempts world geo term dates max_retries 0 clk =
     ([Sleep_uniform 15 30, Request geo term], Suc clk,
      Some (map (\<lambda>d. \<lparr>date = d, search_term = term, search_count = 0\<rparr>) dates))"
  by (simp add: attempts_frame standardize_def)

subsection \<open>The events of a fetch\<close>

lemma attempts_events:
  "attempts world geo term dates max_retries retry_count clk = (ev, clk', r) \<Longrightarrow>
   \<forall>e \<in> set ev. \<not> city_event e"
proof (induction world geo "term" dates max_retries retry_count clk arbitrary: ev clk' r
    rule: attempts.induct)
  case (1 world geo t dates max_retries retry_count clk)
  from "1.prems" "1.IH" show ?case
    by (subst (asm) attempts.simps)
      (auto split: if_splits response.splits prod.splits simp: city_event_def)
qed

lemma fetch_terms_events:
  "fetch_terms world geo dates max_retries kws clk = (ev, clk', all_data) \<Longrightarrow>
   e \<in> set ev \<Longrightarrow> \<not> city_event e"
proof (induction kws arbitrary: clk ev clk' all_data)
  case Nil
  then show ?case by simp
next
  case (Cons t kws)
  obtain ev0 clk0 r0 ev1 clk1 data1 where
    a: "attempts world geo t dates max_retries 0 clk = (ev0, clk0, r0)" and
    b: "fetch_terms world geo dates max_retries kws clk0 = (ev1, clk1, data1)" and
    c: "fetch_terms world geo dates max_retries (t # kws) clk =
       (ev0 @ ev1, clk1, (case r0 of None \<Rightarrow> [] | Some data \<Rightarrow> [data]) @ data1)"
    by (rule fetch_terms_Cons)
  from c Cons.prems have "e \<in> set ev0 \<or> e \<in> set ev1" by auto
  then show ?case
    using attempts_events[OF a] Cons.IH[OF b] by blast
qed

lemma fetch_city_trends_events:
  "fetch_city_trends world geo kws year max_retries clk = (ev, clk', r) \<Longrightarrow>
   e \<in> set ev \<Longrightarrow> \<not> city_event e"
  unfolding fetch_city_trends_def
  by (auto split: if_splits sum.splits prod.splits dest: fetch_terms_events)

lemma year_column_length: "year_column y n = Inr years \<Longrightarrow> length years = n"
  by (cases y) (auto split: if_splits)

text \<open>
  The three ways an iteration of the loop over the cities can end.
\<close>

lemma process_city_cases [case_names critical saved no_data]:
  obtains
    ev clk e where
      "process_city world cfg st row = critical_failure st (geo_code row) ev clk e"
      "\<forall>e \<in> set ev. \<not> city_event e"
  | ev clk df years where
      "df \<noteq> []" "length years = length df"
      "process_city world cfg st row =
         st\<lparr>store := to_csv (store st) (map2 (to_record row) df years),
            clock := Suc clk,
            successful_cities := successful_cities st + 1,
            trace := trace st @ Starting_city (geo_code row) # ev
                       @ [Saved (geo_code row) (length df), Sleep_uniform 30 60]\<rparr>"
      "\<forall>e \<in> set ev. \<not> city_event e"
      "fetch_city_trends world (geo_code row) (SEARCH_TERMS cfg) (YEAR cfg) 3 (clock st)
         = (ev, clk, Inr df)"
  | ev clk where
      "process_city world cfg st row =
         st\<lparr>clock := clk, failed_cities := failed_cities st + 1,
            trace := trace st @ Starting_city (geo_code row) # ev
                       @ [No_data (geo_code row), Sleep_uniform 30 60]\<rparr>"
      "\<forall>e \<in> set ev. \<not> city_event e"
proof -
  obtain ev clk r where
    f: "fetch_city_trends world (geo_code row) (SEARCH_TERMS cfg) (YEAR cfg) 3 (clock st) = (ev, clk, r)"
    by (metis prod_cases3)
  then have ev: "\<forall>e \<in> set ev. \<not> city_event e"
    by (auto dest: fetch_city_trends_events)
  show thesis
  proof (cases r)
    case (Inl e)
    with f have "process_city world cfg st row = critical_failure st (geo_code row) ev clk e"
      by (simp add: process_city_def Let_def)
    then show ?thesis using ev by (rule that(1))
  next
    case (Inr df)
    show ?thesis
    proof (cases "df = []")
      case True
      with f Inr have "process_city world cfg st row =
         st\<lparr>clock := clk, failed_cities := failed_cities st + 1,
            trace := trace st @ Starting_city (geo_code row) # ev
                       @ [No_data (geo_code row), Sleep_uniform 30 60]\<rparr>"
        by (simp add: process_city_def Let_def)
      then show ?thesis using ev by (rule that(3))
    next
      case False
      show ?thesis
      proof (cases "year_column (YEAR cfg) (length df)")
        case (Inl e)
        with f Inr False
        have "process_city world cfg st row = critical_failure st (geo_code row) ev clk e"
          by (simp add: process_city_def Let_def)
        then show ?thesis using ev by (rule that(1))
      next
        case years: (Inr years)
        show ?thesis
        proof (cases "writable world clk")
          case True
          with f Inr False years have "process_city world cfg st row =
             st\<lparr>store := to_csv (store st) (map2 (to_record row) df years),
                clock := Suc clk,
                successful_cities := successful_cities st + 1,
                trace := trace st @ Starting_city (geo_code row) # ev
                       @ [Saved (geo_code row) (length df), Sleep_uniform 30 60]\<rparr>"
            by (simp add: process_city_def Let_def)
          with False year_column_length[OF years] show ?thesis
            using ev f[unfolded Inr] by (rule that(2))
        next
          case w: False
          with f Inr False years
          have "process_city world cfg st row = critical_failure st (geo_code row) ev (Suc clk) OSError"
            by (simp add: process_city_def Let_def)
          then show ?thesis using ev by (rule that(1))
        qed
      qed
    qed
  qed
qed

subsection \<open>The values of a column\<close>






lemma infer_cases:
  "infer tokens = map as_int tokens \<or> infer tokens = map as_float tokens
   \<or> infer tokens = map as_bool tokens \<or> infer tokens = map as_object tokens"
  by (simp add: infer_def Let_def)

lemma infer_Nil: "infer [] = []"
  by (simp add: infer_def)

lemma length_infer: "length (infer tokens) = length tokens"
  using infer_cases[of tokens] by auto

lemma infer_with_text:
  assumes "c \<in> set tokens" "classify c = Text"
  shows "infer tokens = map as_object tokens"
proof -
  have "\<not> list_all P (map classify tokens)" if "\<not> P Text" for P
    using that assms by (auto simp: list_all_iff intro!: bexI[of _ c])
  then show ?thesis by (simp add: infer_def Let_def)
qed


lemma infer_all_text:
  assumes "\<forall>c \<in> set tokens. classify c = Text"
  shows "infer tokens = tokens"
proof (cases tokens)
  case Nil
  then show ?thesis by (simp add: infer_Nil)
next
  case (Cons c cs)
  with assms have "infer tokens = map as_object tokens"
    by (intro infer_with_text[of c]) auto
  also have "\<dots> = tokens" using assms by (simp add: as_object_def map_idI)
  finally show ?thesis .
qed

subsection \<open>Reading the checkpoint file\<close>

lemma map_fst_frame: "map fst (frame columns records) = columns"
  by (simp add: frame_def Let_def comp_def map_nth)

lemma fst_set_frame: "fst ` set (frame columns records) = set columns"
  using map_fst_frame[of columns records] by (metis set_map)

lemma map_of_frame_None:
  "name \<notin> set columns \<Longrightarrow> map_of (frame columns records) name = None"
  using map_fst_frame[of columns records] by (metis map_of_eq_None_iff set_map)

lemma map_of_frame_Some:
  assumes "distinct columns" "j < length columns"
  shows "map_of (frame columns records) (columns ! j)
     = Some (infer (map (\<lambda>r. field_at r (width columns records - length columns + j)) records))"
proof -
  have "distinct (map fst (frame columns records))"
    using assms(1) by (simp add: map_fst_frame)
  moreover have "(columns ! j,
      infer (map (\<lambda>r. field_at r (width columns records - length columns + j)) records))
      \<in> set (frame columns records)"
    using assms(2) by (auto simp: frame_def Let_def)
  ultimately show ?thesis by (rule map_of_is_SomeI)
qed

lemma read_csv_Table:
  assumes "filter (\<lambda>l. l \<noteq> []) ls = columns # records"
    and "\<forall>r \<in> set records. length r \<le> width columns records"
  shows "read_csv (Table ls) = Inr (frame columns records)"
  using assms by (auto simp: not_less)

lemma read_csv_ragged:
  assumes "filter (\<lambda>l. l \<noteq> []) ls = columns # records"
    and "r \<in> set records" "width columns records < length r"
  shows "read_csv (Table ls) = Inl ParserError"
  using assms by auto

lemma read_csv_blank:
  "read_csv (Table ls) = Inl EmptyDataError \<longleftrightarrow> (\<forall>l \<in> set ls. l = [])"
proof -
  have "filter (\<lambda>l. l \<noteq> []) ls = [] \<longleftrightarrow> (\<forall>l \<in> set ls. l = [])"
    by (auto simp: filter_empty_conv)
  then show ?thesis
    by (cases "filter (\<lambda>l. l \<noteq> []) ls") (auto split: if_splits)
qed

lemma read_csv_EmptyDataError:
  "read_csv f = Inl EmptyDataError \<longleftrightarrow> (\<exists>ls. f = Table ls \<and> (\<forall>l \<in> set ls. l = []))"
  using read_csv_blank by (cases f) auto

lemma completed_Absent: "get_completed_cities Absent = Inr {}"
  by (simp add: get_completed_cities_def)

lemma completed_EmptyDataError:
  "read_csv f = Inl EmptyDataError \<Longrightarrow> get_completed_cities f = Inr {}"
  by (simp add: get_completed_cities_def)

lemma completed_no_column:
  assumes "read_csv f = Inr df_done" "CStr ''geo_code'' \<notin> fst ` set df_done"
  shows "get_completed_cities f = Inr {}"
proof -
  from assms(2) have "map_of df_done (CStr ''geo_code'') = None"
    by (simp add: map_of_eq_None_iff)
  with assms(1) show ?thesis by (auto simp: get_completed_cities_def)
qed

lemma completed_raises:
  "get_completed_cities f = Inl e \<longleftrightarrow> read_csv f = Inl e \<and> e \<noteq> EmptyDataError \<and> f \<noteq> Absent"
  by (auto simp: get_completed_cities_def split: sum.splits option.splits)

lemma completed_foreign_header:
  assumes "filter (\<lambda>l. l \<noteq> []) ls = columns # records"
    and "\<forall>r \<in> set records. length r \<le> width columns records"
    and "CStr ''geo_code'' \<notin> set columns"
  shows "get_completed_cities (Table ls) = Inr {}"
proof -
  have "read_csv (Table ls) = Inr (frame columns records)"
    using assms(1,2) by (rule read_csv_Table)
  moreover have "CStr ''geo_code'' \<notin> fst ` set (frame columns records)"
    using assms(3) map_fst_frame[of columns records] by (metis set_map)
  ultimately show ?thesis by (rule completed_no_column)
qed

subsection \<open>Files whose lines have ten fields\<close>

lemma run_after_first_read:
  assumes "get_completed_cities f = Inr completed_geos"
  shows "run world cfg df_cities f =
     (let st = process_cities world cfg (initial f) (cities_to_process cfg df_cities completed_geos)
      in case get_completed_cities (store st) of
           Inl e \<Rightarrow> Inl e
         | Inr completed \<Rightarrow> Inr (st, completed))"
  using assms by (simp add: run_def)

lemma length_to_record: "length (to_record row ob y) = length cols"
  by (simp add: to_record_def cols_def)

lemma length_map2_to_record:
  "\<forall>r \<in> set (map2 (to_record row) df years). length r = length cols"
  by (auto simp: length_to_record)

lemma regular_to_csv:
  assumes "regular f" "\<forall>r \<in> set new. length r = length cols"
  shows "regular (to_csv f new)"
  using assms by (cases f) (auto simp: regular_def)

lemma regular_process_city:
  assumes "regular (store st)"
  shows "regular (store (process_city world cfg st row))"
proof (cases world cfg st row rule: process_city_cases)
  case (critical ev clk e)
  with assms show ?thesis by (simp add: critical_failure_def)
next
  case (saved ev clk df years)
  with assms show ?thesis
    by (simp add: regular_to_csv[OF _ length_map2_to_record])
next
  case (no_data ev clk)
  with assms show ?thesis by simp
qed

lemma regular_process_cities:
  "regular (store st) \<Longrightarrow> regular (store (process_cities world cfg st rows))"
  by (induction rows arbitrary: st) (simp_all add: Let_def regular_process_city)

text \<open>
  A file in which every line is blank or has ten fields is read without an exception.
\<close>

lemma regular_completed:
  assumes "regular f"
  shows "\<exists>completed. get_completed_cities f = Inr completed"
proof (cases f)
  case Absent
  then show ?thesis by (simp add: completed_Absent)
next
  case (Table ls)
  show ?thesis
  proof (cases "filter (\<lambda>l. l \<noteq> []) ls")
    case Nil
    then have "read_csv f = Inl EmptyDataError" using Table by simp
    then show ?thesis by (simp add: completed_EmptyDataError)
  next
    case (Cons columns records)
    have "set (columns # records) \<subseteq> set ls"
      unfolding Cons[symmetric] by auto
    moreover have "\<forall>l \<in> set (columns # records). l \<noteq> []"
      unfolding Cons[symmetric] by auto
    ultimately have len: "\<forall>l \<in> set (columns # records). length l = length cols"
      using assms Table by (auto simp: regular_def)
    then have "width columns records = length cols"
      by (cases records) (simp_all add: width_def)
    with len have "\<forall>r \<in> set records. length r \<le> width columns records" by simp
    with Cons have "read_csv (Table ls) = Inr (frame columns records)"
      by (rule read_csv_Table)
    with Table show ?thesis
      by (auto simp: get_completed_cities_def split: option.splits)
  qed
next
  case Corrupt
  with assms show ?thesis by (simp add: regular_def)
qed

lemma regular_blank: "read_csv f = Inl EmptyDataError \<Longrightarrow> regular f"
  by (auto simp: read_csv_EmptyDataError regular_def)

subsection \<open>The loop over the cities\<close>

lemma process_cities_append:
  "stopped (process_cities world cfg st before) = None \<Longrightarrow>
   process_cities world cfg st (before @ rows) =
     process_cities world cfg (process_cities world cfg st before) rows"
  by (induction before arbitrary: st) (auto simp: Let_def split: if_splits)

lemma stopped_process_city:
  "stopped (process_city world cfg st row) = Some e \<Longrightarrow> stopped st = None \<Longrightarrow>
   \<exists>ev clk. process_city world cfg st row = critical_failure st (geo_code row) ev clk e
     \<and> (\<forall>e \<in> set ev. \<not> city_event e)"
  by (cases world cfg st row rule: process_city_cases) (auto simp: critical_failure_def)

lemma attempted_append: "attempted (xs @ ys) = attempted xs @ attempted ys"
  by (simp add: attempted_def)

lemma attempted_fetch: "\<forall>e \<in> set ev. \<not> city_event e \<Longrightarrow> attempted ev = []"
  by (induction ev) (auto simp: attempted_def city_event_def split: event.splits)

lemma attempted_Cons: "attempted (e # ev) = (case e of Starting_city geo \<Rightarrow> [geo] | _ \<Rightarrow> []) @ attempted ev"
  by (simp add: attempted_def)

lemma attempted_Nil: "attempted [] = []"
  by (simp add: attempted_def)

lemma attempted_process_city:
  "attempted (trace (process_city world cfg st row)) = attempted (trace st) @ [geo_code row]"
proof (cases world cfg st row rule: process_city_cases)
  case (critical ev clk e)
  then show ?thesis
    by (simp add: critical_failure_def attempted_append attempted_Cons attempted_Nil attempted_fetch)
next
  case (saved ev clk df years)
  then show ?thesis
    by (simp add: attempted_append attempted_Cons attempted_Nil attempted_fetch)
next
  case (no_data ev clk)
  then show ?thesis
    by (simp add: attempted_append attempted_Cons attempted_Nil attempted_fetch)
qed

lemma counters_process_city:
  "successful_cities (process_city world cfg st row) + failed_cities (process_city world cfg st row)
     = Suc (successful_cities st + failed_cities st)"
  by (cases world cfg st row rule: process_city_cases) (simp_all add: critical_failure_def)

lemma process_cities_attempted:
  "\<exists>k \<le> length rows.
     attempted (trace (process_cities world cfg st rows))
       = attempted (trace st) @ map geo_code (take k rows)
     \<and> successful_cities (process_cities world cfg st rows)
         + failed_cities (process_cities world cfg st rows)
       = successful_cities st + failed_cities st + k
     \<and> (stopped (process_cities world cfg st rows) = None \<longrightarrow> k = length rows)
     \<and> (stopped (process_cities world cfg st rows) \<noteq> None \<and> stopped st = None \<longrightarrow> 0 < k)"
proof (induction rows arbitrary: st)
  case Nil
  then show ?case by auto
next
  case (Cons row rows)
  let ?st1 = "process_city world cfg st row"
  show ?case
  proof (cases "stopped ?st1 = None")
    case False
    then have eq: "process_cities world cfg st (row # rows) = ?st1" by (simp add: Let_def)
    have "1 \<le> length (row # rows)" by simp
    moreover have "attempted (trace ?st1) = attempted (trace st) @ map geo_code (take 1 (row # rows))"
      by (simp add: attempted_process_city)
    moreover have "successful_cities ?st1 + failed_cities ?st1
        = successful_cities st + failed_cities st + 1"
      by (simp add: counters_process_city)
    ultimately show ?thesis
      unfolding eq using False by (intro exI[of _ 1] conjI impI) simp_all
  next
    case True
    then have eq: "process_cities world cfg st (row # rows) = process_cities world cfg ?st1 rows"
      by (simp add: Let_def)
    from Cons.IH[of ?st1] obtain k where k: "k \<le> length rows"
      "attempted (trace (process_cities world cfg ?st1 rows))
         = attempted (trace ?st1) @ map geo_code (take k rows)"
      "successful_cities (process_cities world cfg ?st1 rows)
         + failed_cities (process_cities world cfg ?st1 rows)
       = successful_cities ?st1 + failed_cities ?st1 + k"
      "stopped (process_cities world cfg ?st1 rows) = None \<longrightarrow> k = length rows"
      "stopped (process_cities world cfg ?st1 rows) \<noteq> None \<and> stopped ?st1 = None \<longrightarrow> 0 < k"
      by (elim exE conjE) (rule that; assumption)
    have "Suc k \<le> length (row # rows)" using k(1) by simp
    moreover have "attempted (trace (process_cities world cfg ?st1 rows))
        = attempted (trace st) @ map geo_code (take (Suc k) (row # rows))"
      using k(2) by (simp add: attempted_process_city)
    moreover have "successful_cities (process_cities world cfg ?st1 rows)
         + failed_cities (process_cities world cfg ?st1 rows)
       = successful_cities st + failed_cities st + Suc k"
      using k(3) by (simp add: counters_process_city)
    moreover have "stopped (process_cities world cfg ?st1 rows) = None \<longrightarrow> Suc k = length (row # rows)"
      using k(4) by simp
    ultimately show ?thesis
      unfolding eq by (intro exI[of _ "Suc k"] conjI impI) simp_all
  qed
qed

lemma length_head: "0 \<le> n \<Longrightarrow> n < int (length xs) \<Longrightarrow> int (length (head n xs)) = n"
  by (simp add: head_def)

subsection \<open>Files that start with the header\<close>

lemma geo_code_in_cols: "CStr ''geo_code'' \<in> set cols"
  by (simp add: cols_def)

lemma has_header_cases:
  assumes "has_header f"
  obtains "f = Absent" | records where "f = Table (cols # records)"
proof (cases f)
  case Absent
  then show ?thesis by (rule that(1))
next
  case (Table ls)
  with assms obtain records where "ls = cols # records"
    by (cases ls) (auto simp: has_header_def)
  with Table show ?thesis by (intro that(2)) simp
next
  case Corrupt
  with assms show ?thesis by (simp add: has_header_def)
qed

lemma cols_facts: "distinct cols" "length cols = 10" "cols ! 7 = CStr ''geo_code''" "cols \<noteq> []"
  by (simp_all add: cols_def)

text \<open>
  The completed-set of a file that starts with the header and holds records of ten fields.
\<close>

lemma completed_has_header:
  assumes "has_header f" "ten_fields f"
  shows "get_completed_cities f
     = Inr (set (infer (map (\<lambda>r. field_at r 7) (records_of f))))"
  using assms(1)
proof (cases f rule: has_header_cases)
  case 1
  then show ?thesis by (simp add: completed_Absent records_of_def infer_Nil)
next
  case (2 records)
  with assms(2) have len: "\<forall>r \<in> set records. length r = length cols"
    by (simp add: ten_fields_def records_of_def)
  then have "\<forall>r \<in> set records. r \<noteq> []" using cols_facts(2) by auto
  then have nb: "filter (\<lambda>l. l \<noteq> []) (cols # records) = cols # records"
    using cols_facts(4) by (simp add: filter_id_conv)
  have w: "width cols records = length cols"
    using len by (cases records) (simp_all add: width_def)
  with len have "\<forall>r \<in> set records. length r \<le> width cols records" by simp
  with nb have r: "read_csv (Table (cols # records)) = Inr (frame cols records)"
    by (rule read_csv_Table)
  have "map_of (frame cols records) (cols ! 7)
     = Some (infer (map (\<lambda>r. field_at r (width cols records - length cols + 7)) records))"
    by (rule map_of_frame_Some) (simp_all add: cols_facts)
  then have "map_of (frame cols records) (CStr ''geo_code'')
     = Some (infer (map (\<lambda>r. field_at r 7) records))"
    by (simp add: w cols_facts(3))
  with r 2 show ?thesis by (simp add: get_completed_cities_def records_of_def)
qed














subsection \<open>A run on a source without data in 2023\<close>

lemma map2_replicate: "map2 f xs (replicate (length xs) c) = map (\<lambda>x. f x c) xs"
  by (induction xs) simp_all

lemma head_single: "1 \<le> n \<Longrightarrow> head n [x] = [x]"
  by (simp add: head_def)

lemma length_2023: "length (map (\<lambda>k. ordinal 2023 1 1 + 7 * int k) [0 ..< 53]) = 53"
  by simp

lemma fetch_empty_2023:
  assumes "connect world clk" "\<forall>geo n. interest_over_time world geo ''X'' n = Frame []"
  shows "fetch_city_trends world geo [''X''] (PyInt 2023) 3 clk =
     ([Sleep_uniform 15 30, Request geo ''X''], Suc (Suc clk),
      Inr (map (\<lambda>d. \<lparr>date = d, search_term = ''X'', search_count = 0\<rparr>)
             (map (\<lambda>k. ordinal 2023 1 1 + 7 * int k) [0 ..< 53])))"
  using assms
  by (simp add: fetch_city_trends_def date_range_2023 attempts_empty_frame del: date_range.simps)

lemma process_city_empty_2023:
  assumes "connect world (clock st)" "writable world (Suc (Suc (clock st)))"
    and "\<forall>geo n. interest_over_time world geo ''X'' n = Frame []"
    and "YEAR cfg = PyInt 2023" "SEARCH_TERMS cfg = [''X'']"
  shows "process_city world cfg st row =
     st\<lparr>store := to_csv (store st)
                 (map (zero_record row ''X'' 2023)
                    (map (\<lambda>k. ordinal 2023 1 1 + 7 * int k) [0 ..< 53])),
        clock := Suc (Suc (Suc (clock st))),
        successful_cities := successful_cities st + 1,
        trace := trace st @ [Starting_city (geo_code row), Sleep_uniform 15 30,
                   Request (geo_code row) ''X'', Saved (geo_code row) 53, Sleep_uniform 30 60]\<rparr>"
proof -
  let ?ds = "map (\<lambda>k. ordinal 2023 1 1 + 7 * int k) [0 ..< 53]"
  let ?df = "map (\<lambda>d. \<lparr>date = d, search_term = ''X'', search_count = 0\<rparr>) ?ds"
  have l: "length ?df = 53" by simp
  have ne: "?df \<noteq> []" using l by (metis length_0_conv zero_neq_numeral)
  have m: "map2 (to_record row) ?df (replicate 53 (CInt 2023)) = map (zero_record row ''X'' 2023) ?ds"
    using map2_replicate[of "to_record row" ?df "CInt 2023"] unfolding l
    by (simp add: to_record_def zero_record_def comp_def)
  show ?thesis
    unfolding process_city_def Let_def assms(4,5) fetch_empty_2023[OF assms(1,3)]
    using assms(2) ne by (simp only: prod.case sum.case if_True if_False l year_column.simps m not_False_eq_True not_not simp_thms) simp
qed

lemma sundays_2023:
  "distinct (map (\<lambda>k. ordinal 2023 1 1 + 7 * int k) [0 ..< 53])
   \<and> set (map (\<lambda>k. ordinal 2023 1 1 + 7 * int k) [0 ..< 53]) = sundays_of 2023"
  using date_range_PyInt[of 2023] by (simp add: date_range_2023 del: date_range.simps)

lemma run_single_empty_2023:
  assumes "\<forall>n. connect world n" "\<forall>n. writable world n"
    and "\<forall>geo n. interest_over_time world geo ''X'' n = Frame []"
    and "YEAR cfg = PyInt 2023" "SEARCH_TERMS cfg = [''X'']" "1 \<le> MAX_CITIES_PER_RUN cfg"
    and "get_completed_cities f = Inr {}"
  shows "run world cfg [row] f =
     (case get_completed_cities (to_csv f (map (zero_record row ''X'' 2023)
                    (map (\<lambda>k. ordinal 2023 1 1 + 7 * int k) [0 ..< 53]))) of
        Inl e \<Rightarrow> Inl e
      | Inr completed \<Rightarrow>
          Inr (\<lparr>store = to_csv f (map (zero_record row ''X'' 2023)
                    (map (\<lambda>k. ordinal 2023 1 1 + 7 * int k) [0 ..< 53])),
                clock = 3, successful_cities = 1, failed_cities = 0,
                trace = [Starting_city (geo_code row), Sleep_uniform 15 30,
                   Request (geo_code row) ''X'', Saved (geo_code row) 53, Sleep_uniform 30 60],
                stopped = None\<rparr>, completed))"
proof -
  have b: "cities_to_process cfg [row] {} = [row]"
    using assms(6) by (simp add: cities_to_process_def remaining_work_def head_single)
  have p: "process_city world cfg (initial f) row =
     \<lparr>store = to_csv f (map (zero_record row ''X'' 2023)
                    (map (\<lambda>k. ordinal 2023 1 1 + 7 * int k) [0 ..< 53])),
           clock = 3, successful_cities = 1, failed_cities = 0,
           trace = [Starting_city (geo_code row), Sleep_uniform 15 30,
                   Request (geo_code row) ''X'', Saved (geo_code row) 53, Sleep_uniform 30 60],
           stopped = None\<rparr>"
    using assms(1,2) by (subst process_city_empty_2023[OF _ _ assms(3,4,5)]) (simp_all add: initial_def)
  have pc: "process_cities world cfg (initial f) [row] =
     \<lparr>store = to_csv f (map (zero_record row ''X'' 2023)
                    (map (\<lambda>k. ordinal 2023 1 1 + 7 * int k) [0 ..< 53])),
           clock = 3, successful_cities = 1, failed_cities = 0,
           trace = [Starting_city (geo_code row), Sleep_uniform 15 30,
                   Request (geo_code row) ''X'', Saved (geo_code row) 53, Sleep_uniform 30 60],
           stopped = None\<rparr>"
    by (simp add: p Let_def)
  show ?thesis
    unfolding run_after_first_read[OF assms(7), of world cfg "[row]"] b Let_def pc
      run_state.select_convs
    by (rule refl)
qed

lemma length_zero_record: "length (zero_record row term y d) = length cols"
  by (simp add: zero_record_def cols_def)

lemma field_zero_record: "field_at (zero_record row term y d) 7 = CStr (geo_code row)"
  by (simp add: zero_record_def field_at_def)

lemma us_a_reads_as_text: "classify (CStr ''US-A'') = Text"
  by code_simp

lemma completed_zero_records:
  assumes "classify (CStr (geo_code row)) = Text" "ds \<noteq> []"
  shows "get_completed_cities (Table (cols # map (zero_record row term y) ds))
     = Inr {CStr (geo_code row)}"
proof -
  let ?f = "Table (cols # map (zero_record row term y) ds)"
  have h: "has_header ?f" by (simp add: has_header_def)
  have t: "ten_fields ?f"
    by (simp add: ten_fields_def records_of_def length_zero_record)
  have m: "map (\<lambda>r. field_at r 7) (records_of ?f) = map (\<lambda>d. CStr (geo_code row)) ds"
    by (simp add: records_of_def field_zero_record comp_def)
  have "infer (map (\<lambda>d. CStr (geo_code row)) ds) = map (\<lambda>d. CStr (geo_code row)) ds"
    by (rule infer_all_text) (simp add: assms(1) del: classify.simps)
  with completed_has_header[OF h t] assms(2) show ?thesis
    unfolding m by (simp add: image_constant_conv)
qed

lemma process_city_unwritable_2023:
  assumes "connect world (clock st)" "\<not> writable world (Suc (Suc (clock st)))"
    and "\<forall>geo n. interest_over_time world geo ''X'' n = Frame []"
    and "YEAR cfg = PyInt 2023" "SEARCH_TERMS cfg = [''X'']"
  shows "process_city world cfg st row =
     critical_failure st (geo_code row) [Sleep_uniform 15 30, Request (geo_code row) ''X'']
       (Suc (Suc (Suc (clock st)))) OSError"
proof -
  let ?ds = "map (\<lambda>k. ordinal 2023 1 1 + 7 * int k) [0 ..< 53]"
  let ?df = "map (\<lambda>d. \<lparr>date = d, search_term = ''X'', search_count = 0\<rparr>) ?ds"
  have l: "length ?df = 53" by simp
  have ne: "?df \<noteq> []" using l by (metis length_0_conv zero_neq_numeral)
  show ?thesis
    unfolding process_city_def Let_def assms(4,5) fetch_empty_2023[OF assms(1,3)]
    using assms(2) ne by (simp only: prod.case sum.case if_True if_False l year_column.simps simp_thms)
qed

subsection \<open>The example worlds\<close>

lemma throttled_rate_limited: "rate_limited (interest_over_time throttled_world geo term n)"
  by (simp add: throttled_world_def rate_limited_def)

lemma read_only_facts:
  "connect read_only_world n" "\<not> writable read_only_world n"
  "\<forall>geo n. interest_over_time read_only_world geo ''X'' n = Frame []"
  by (simp_all add: read_only_world_def)

lemma quiet_facts:
  "\<forall>n. connect quiet_world n" "\<forall>n. writable quiet_world n"
  "\<forall>geo n. interest_over_time quiet_world geo ''X'' n = Frame []"
  by (simp_all add: quiet_world_def)

lemma example_config_facts:
  "YEAR example_config = PyInt 2023" "SEARCH_TERMS example_config = [''X'']"
  "MAX_CITIES_PER_RUN example_config = 50"
  by (simp_all add: example_config_def)

lemma read_only_first_city:
  assumes "YEAR cfg = PyInt 2023" "SEARCH_TERMS cfg = [''X'']"
  shows "process_city read_only_world cfg (initial f) row =
     \<lparr>store = f, clock = 3, successful_cities = 0, failed_cities = 1,
      trace = [Starting_city (geo_code row), Sleep_uniform 15 30, Request (geo_code row) ''X'',
               Critical_failure (geo_code row) OSError],
      stopped = Some OSError\<rparr>"
  by (subst process_city_unwritable_2023[OF read_only_facts assms])
    (simp add: critical_failure_def initial_def)

subsection \<open>A checkpoint file with another header\<close>

lemma foreign_file_frame:
  "read_csv foreign_file
     = Inr (frame [CStr ''date'', CStr ''city''] [[CDate (ordinal 2023 1 1), CStr ''US-A'']])"
  by (simp add: foreign_file_def width_def)

lemma foreign_file_after_a_city:
  "get_completed_cities (to_csv foreign_file (zero_record row term y d # rest)) = Inl ParserError"
proof -
  let ?hdr = "[CStr ''date'', CStr ''city'']"
  let ?rec = "[CDate (ordinal 2023 1 1), CStr ''US-A'']"
  let ?new = "zero_record row term y d"
  let ?ls = "[?hdr, ?rec] @ ?new # rest"
  have n: "?new \<noteq> []" by (simp add: zero_record_def)
  have f: "filter (\<lambda>l. l \<noteq> []) ?ls = ?hdr # (?rec # ?new # filter (\<lambda>l. l \<noteq> []) rest)"
    using n by simp
  have "read_csv (Table ?ls) = Inl ParserError"
    using f by (rule read_csv_ragged[where r = ?new]) (simp_all add: width_def zero_record_def)
  then show ?thesis
    by (simp add: foreign_file_def get_completed_cities_def)
qed

subsection \<open>Runs on the example worlds\<close>

lemma small_quota_config_facts:
  "YEAR small_quota_config = PyInt 2023" "SEARCH_TERMS small_quota_config = [''X'']"
  "MAX_CITIES_PER_RUN small_quota_config = 2"
  by (simp_all add: small_quota_config_def)




lemma remaining_three: "remaining_work [us_a, us_b, us_c] {} = [us_a, us_b, us_c]"
  by (simp add: remaining_work_def)

lemma completed_headless:
  assumes "CStr ''geo_code'' \<notin> set r" "\<forall>l \<in> set (r # rs). length l = length cols"
  shows "get_completed_cities (Table (r # rs)) = Inr {}"
proof -
  from assms(2) have "\<forall>l \<in> set (r # rs). l \<noteq> []" using cols_facts(2) by auto
  then have "filter (\<lambda>l. l \<noteq> []) (r # rs) = r # rs"
    by (simp add: filter_id_conv)
  moreover have "width r rs = length cols"
    using assms(2) by (cases rs) (simp_all add: width_def)
  then have "\<forall>l \<in> set rs. length l \<le> width r rs" using assms(2) by simp
  ultimately show ?thesis using assms(1) by (rule completed_foreign_header)
qed

subsection \<open>The configuration as shipped\<close>

text \<open>
  With \<^verbatim>\<open>YEAR = 2021, 2022, 2023, 2024\<close> the start and end passed to
  \<^verbatim>\<open>pd.date_range\<close> are not dates, so the fetch of the first city raises before any
  request is made, whatever the world does: the run stops there and writes nothing.
\<close>

lemma shipped_config_stops_at_the_first_city:
  "\<exists>e. process_cities world shipped_config (initial f) (row # rows) =
     critical_failure (initial f) (geo_code row) [] 1 e
     \<and> e = (if connect world 0 then DateParseError else ConnectionError)"
  by (simp add: Let_def process_city_def fetch_city_trends_def shipped_config_def
      critical_failure_def initial_def)

subsection \<open>A geo code made of digits\<close>

lemma infer_all_integer:
  assumes "classify c = Integer i" "- (2 ^ 63) \<le> i" "i < 2 ^ 63"
  shows "infer (map (\<lambda>d. c) ds) = map (\<lambda>d. CInt i) ds"
  using assms
  by (auto simp: infer_def Let_def comp_def list_all_iff as_int_def simp del: classify.simps)

lemma us_d_reads_as_integer: "classify (CStr ''123'') = Integer 123"
  by code_simp

lemma completed_us_d:
  assumes "ds \<noteq> []"
  shows "get_completed_cities (Table (cols # map (zero_record us_d term y) ds)) = Inr {CInt 123}"
proof -
  let ?f = "Table (cols # map (zero_record us_d term y) ds)"
  have h: "has_header ?f" by (simp add: has_header_def)
  have t: "ten_fields ?f"
    by (simp add: ten_fields_def records_of_def length_zero_record)
  have m: "map (\<lambda>r. field_at r 7) (records_of ?f) = map (\<lambda>d. CStr ''123'') ds"
    by (simp add: records_of_def field_zero_record comp_def us_d_def)
  have "infer (map (\<lambda>d. CStr ''123'') ds) = map (\<lambda>d. CInt 123) ds"
    by (rule infer_all_integer[OF us_d_reads_as_integer]) simp_all
  with completed_has_header[OF h t] assms show ?thesis
    unfolding m by (simp add: image_constant_conv)
qed

lemma run_first_city_empty_2023:
  assumes "\<forall>n. connect world n" "\<forall>n. writable world n"
    and "\<forall>geo n. interest_over_time world geo ''X'' n = Frame []"
    and "YEAR cfg = PyInt 2023" "SEARCH_TERMS cfg = [''X'']"
    and "get_completed_cities f = Inr completed_geos"
    and "cities_to_process cfg df_cities completed_geos = [row]"
  shows "run world cfg df_cities f =
     (case get_completed_cities (to_csv f (map (zero_record row ''X'' 2023)
                    (map (\<lambda>k. ordinal 2023 1 1 + 7 * int k) [0 ..< 53]))) of
        Inl e \<Rightarrow> Inl e
      | Inr completed \<Rightarrow>
          Inr (\<lparr>store = to_csv f (map (zero_record row ''X'' 2023)
                    (map (\<lambda>k. ordinal 2023 1 1 + 7 * int k) [0 ..< 53])),
                clock = 3, successful_cities = 1, failed_cities = 0,
                trace = [Starting_city (geo_code row), Sleep_uniform 15 30,
                   Request (geo_code row) ''X'', Saved (geo_code row) 53, Sleep_uniform 30 60],
                stopped = None\<rparr>, completed))"
proof -
  have p: "process_city world cfg (initial f) row =
     \<lparr>store = to_csv f (map (zero_record row ''X'' 2023)
                    (map (\<lambda>k. ordinal 2023 1 1 + 7 * int k) [0 ..< 53])),
           clock = 3, successful_cities = 1, failed_cities = 0,
           trace = [Starting_city (geo_code row), Sleep_uniform 15 30,
                   Request (geo_code row) ''X'', Saved (geo_code row) 53, Sleep_uniform 30 60],
           stopped = None\<rparr>"
    using assms(1,2) by (subst process_city_empty_2023[OF _ _ assms(3,4,5)]) (simp_all add: initial_def)
  have pc: "process_cities world cfg (initial f) [row] =
     \<lparr>store = to_csv f (map (zero_record row ''X'' 2023)
                    (map (\<lambda>k. ordinal 2023 1 1 + 7 * int k) [0 ..< 53])),
           clock = 3, successful_cities = 1, failed_cities = 0,
           trace = [Starting_city (geo_code row), Sleep_uniform 15 30,
                   Request (geo_code row) ''X'', Saved (geo_code row) 53, Sleep_uniform 30 60],
           stopped = None\<rparr>"
    by (simp add: p Let_def)
  show ?thesis
    unfolding run_after_first_read[OF assms(6), of world cfg df_cities] assms(7) Let_def pc
      run_state.select_convs
    by (rule refl)
qed

text \<open>
  A geo code made of digits, in a catalog that also holds other codes, is written as it is
  and read back as an integer: the completed-set then holds the number and not the string,
  the city stays in the remaining work, and with a quota of one the second run fetches it
  again and appends its records a second time.
\<close>

lemma numeric_code_is_fetched_again:
  "\<exists>st1 st2 rows.
     run_twice quiet_world quiet_world one_city_config [us_d, us_a] Absent
       = Inr ((st1, {CInt 123}), (st2, {CInt 123}))
     \<and> length rows = 53
     \<and> store st1 = Table (cols # rows)
     \<and> store st2 = Table (cols # rows @ rows)
     \<and> attempted (trace st1) = [''123'']
     \<and> attempted (trace st2) = [''123'']
     \<and> remaining_work [us_d, us_a] {CInt 123} = [us_d, us_a]"
proof -
  let ?ds = "map (\<lambda>k. ordinal 2023 1 1 + 7 * int k) [0 ..< 53]"
  let ?rows = "map (zero_record us_d ''X'' 2023) ?ds"
  let ?tr = "[Starting_city (geo_code us_d), Sleep_uniform 15 30,
                   Request (geo_code us_d) ''X'', Saved (geo_code us_d) 53, Sleep_uniform 30 60]"
  let ?st1 = "\<lparr>store = Table (cols # ?rows), clock = 3, successful_cities = 1, failed_cities = 0,
           trace = ?tr, stopped = None\<rparr>"
  let ?st2 = "\<lparr>store = Table (cols # ?rows @ ?rows), clock = 3, successful_cities = 1,
           failed_cities = 0, trace = ?tr, stopped = None\<rparr>"
  have cfg: "YEAR one_city_config = PyInt 2023" "SEARCH_TERMS one_city_config = [''X'']"
    by (simp_all add: one_city_config_def)
  have rem: "remaining_work [us_d, us_a] {} = [us_d, us_a]"
    "remaining_work [us_d, us_a] {CInt 123} = [us_d, us_a]"
    by (simp_all add: remaining_work_def)
  have b: "cities_to_process one_city_config [us_d, us_a] {} = [us_d]"
    "cities_to_process one_city_config [us_d, us_a] {CInt 123} = [us_d]"
    by (simp_all add: cities_to_process_def rem head_def one_city_config_def)
  have ne: "?ds \<noteq> []" "?ds @ ?ds \<noteq> []" using length_2023 by auto
  have c1: "get_completed_cities (Table (cols # ?rows)) = Inr {CInt 123}"
    using ne(1) by (rule completed_us_d)
  have "get_completed_cities (Table (cols # map (zero_record us_d ''X'' 2023) (?ds @ ?ds)))
     = Inr {CInt 123}"
    using ne(2) by (rule completed_us_d)
  then have c2: "get_completed_cities (Table (cols # ?rows @ ?rows)) = Inr {CInt 123}"
    by (simp only: map_append)
  have r1: "run quiet_world one_city_config [us_d, us_a] Absent = Inr (?st1, {CInt 123})"
    unfolding run_first_city_empty_2023[OF quiet_facts cfg completed_Absent b(1)]
    by (simp only: to_csv.simps c1 sum.case)
  have r2: "run quiet_world one_city_config [us_d, us_a] (Table (cols # ?rows))
     = Inr (?st2, {CInt 123})"
    unfolding run_first_city_empty_2023[OF quiet_facts cfg c1 b(2)]
    by (simp only: to_csv.simps append_Cons c2 sum.case)
  have t: "run_twice quiet_world quiet_world one_city_config [us_d, us_a] Absent
       = Inr ((?st1, {CInt 123}), (?st2, {CInt 123}))"
    by (simp only: run_twice_def r1 sum.case prod.case run_state.select_convs r2)
  have l: "length ?rows = 53" by simp
  have at: "attempted ?tr = [''123'']" by (simp add: attempted_def us_d_def)
  from t l at rem(2) show ?thesis
    by (intro exI[of _ ?st1] exI[of _ ?st2] exI[of _ ?rows] conjI) simp_all
qed

section \<open>The properties\<close>

subsection \<open>C1: the end-to-end example\<close>

text \<open>
  C1. The catalog holds one entity with geo code US-A at latitude 40 and longitude -70, the
  keyword list is X, the target year is 2023, and the source has no data for X. Started
  without a checkpoint file (or with one that holds the header only), with a quota of at
  least one city and nothing failing, one run leaves a file of the header and exactly 53
  records, one for each week-ending Sunday of 2023, each with search count 0, search term X
  and geo code US-A, and the completed-set read back afterwards is {US-A}.
\<close>

theorem end_to_end_example:
  assumes "\<forall>n. connect world n" "\<forall>n. writable world n"
    and "\<forall>geo n. interest_over_time world geo ''X'' n = Frame []"
    and "YEAR cfg = PyInt 2023" "SEARCH_TERMS cfg = [''X'']" "1 \<le> MAX_CITIES_PER_RUN cfg"
    and "geo_code row = ''US-A''" "latitude row = 40" "longitude row = - 70"
    and "f = Absent \<or> f = Table [cols]"
  shows "\<exists>st ds. run world cfg [row] f = Inr (st, {CStr ''US-A''})
     \<and> length ds = 53 \<and> distinct ds \<and> set ds = sundays_of 2023
     \<and> store st = Table (cols # map (\<lambda>d.
          [CDate d, CFloat 40, CFloat (- 70), CStr (country row), CStr (state_province row),
           CInt 0, CStr (location_name row), CStr ''US-A'', CStr ''X'', CInt 2023]) ds)
     \<and> successful_cities st = 1 \<and> failed_cities st = 0 \<and> stopped st = None"
proof -
  let ?ds = "map (\<lambda>k. ordinal 2023 1 1 + 7 * int k) [0 ..< 53]"
  let ?rows = "map (zero_record row ''X'' 2023) ?ds"
  have "get_completed_cities (Table [cols]) = Inr {}"
    using completed_has_header[of "Table [cols]"]
    by (simp add: has_header_def ten_fields_def records_of_def infer_Nil)
  with assms(10) have c0: "get_completed_cities f = Inr {}"
    using completed_Absent by auto
  from assms(10) have t: "to_csv f ?rows = Table (cols # ?rows)" by auto
  have ne: "?ds \<noteq> []" using length_2023 by (metis length_0_conv zero_neq_numeral)
  have c1: "get_completed_cities (Table (cols # ?rows)) = Inr {CStr ''US-A''}"
    using completed_zero_records[of row ?ds "''X''" 2023] ne
    by (simp only: assms(7) us_a_reads_as_text simp_thms)
  have z: "?rows = map (\<lambda>d.
          [CDate d, CFloat 40, CFloat (- 70), CStr (country row), CStr (state_province row),
           CInt 0, CStr (location_name row), CStr ''US-A'', CStr ''X'', CInt 2023]) ?ds"
    by (simp add: zero_record_def assms(7,8,9))
  have r: "run world cfg [row] f =
     Inr (\<lparr>store = to_csv f ?rows,
           clock = 3, successful_cities = 1, failed_cities = 0,
           trace = [Starting_city (geo_code row), Sleep_uniform 15 30,
                   Request (geo_code row) ''X'', Saved (geo_code row) 53, Sleep_uniform 30 60],
           stopped = None\<rparr>, {CStr ''US-A''})"
    unfolding run_single_empty_2023[OF assms(1-6) c0, of row] t c1 by simp
  with t z sundays_2023 length_2023 show ?thesis
    by (intro exI[of _ "\<lparr>store = to_csv f ?rows,
           clock = 3, successful_cities = 1, failed_cities = 0,
           trace = [Starting_city (geo_code row), Sleep_uniform 15 30,
                   Request (geo_code row) ''X'', Saved (geo_code row) 53, Sleep_uniform 30 60],
           stopped = None\<rparr>"] exI[of _ ?ds] conjI) simp_all
qed

text \<open>
  C1 on the quiet world, the example configuration and the entity \<open>us_a\<close>, started
  without a checkpoint file.
\<close>

theorem end_to_end_example_witness:
  "\<exists>st ds. run quiet_world example_config [us_a] Absent = Inr (st, {CStr ''US-A''})
     \<and> length ds = 53 \<and> distinct ds \<and> set ds = sundays_of 2023
     \<and> store st = Table (cols # map (\<lambda>d.
          [CDate d, CFloat 40, CFloat (- 70), CStr ''US'', CStr ''NY'',
           CInt 0, CStr ''Aston'', CStr ''US-A'', CStr ''X'', CInt 2023]) ds)
     \<and> successful_cities st = 1 \<and> failed_cities st = 0 \<and> stopped st = None"
  using end_to_end_example[of quiet_world example_config us_a Absent]
  by (simp add: quiet_world_def example_config_def us_a_def)

subsection \<open>C2: an empty result becomes a year of zeros\<close>

text \<open>
  C2. For every geo code, every keyword of a list without repetition and every target year
  that pandas can hold: if the source answers the keyword with an empty frame, the session
  can be built and at least one attempt is allowed, then the fetch returns, and its
  observations for the keyword are exactly one per week-ending Sunday of the year (their
  dates are distinct and are that set), each with search count zero.
\<close>

theorem empty_result_is_zero_filled:
  assumes "1678 \<le> y" "y \<le> 2261" "connect world clk" "0 < max_retries"
    and "term \<in> set keywords" "distinct keywords"
    and "\<forall>n. interest_over_time world geo term n = Frame []"
  shows "\<exists>ev clk' df.
     fetch_city_trends world geo keywords (PyInt y) max_retries clk = (ev, clk', Inr df) \<and>
     (let rows = filter (\<lambda>ob. search_term ob = term) df
      in distinct (map date rows) \<and> date ` set rows = sundays_of y
         \<and> (\<forall>ob \<in> set rows. search_count ob = 0))"
proof -
  from date_range_PyInt[OF assms(1,2)] obtain ds where
    ds: "date_range (PyInt y) = Inr ds" "distinct ds" "set ds = sundays_of y"
    by blast
  from assms(5) obtain pre post where kw: "keywords = pre @ term # post"
    by (auto simp: in_set_conv_decomp)
  with assms(6) have notin: "term \<notin> set pre" "term \<notin> set post" by auto
  let ?zeros = "map (\<lambda>d. \<lparr>date = d, search_term = term, search_count = 0\<rparr>) ds"
  obtain ev1 clk1 data1 where
    b: "fetch_terms world geo ds max_retries pre (Suc clk) = (ev1, clk1, data1)"
    by (metis prod_cases3)
  obtain ev3 clk3 data3 where
    c: "fetch_terms world geo ds max_retries post (Suc clk1) = (ev3, clk3, data3)"
    by (metis prod_cases3)
  have a: "attempts world geo term ds max_retries 0 clk1 =
     ([Sleep_uniform 15 30, Request geo term], Suc clk1, Some ?zeros)"
    using assms(4,7) by (simp add: attempts_empty_frame)
  have all: "fetch_terms world geo ds max_retries keywords (Suc clk) =
      (ev1 @ [Sleep_uniform 15 30, Request geo term] @ ev3, clk3, data1 @ [?zeros] @ data3)"
    unfolding kw by (simp add: fetch_terms_append b a c)
  have f: "fetch_city_trends world geo keywords (PyInt y) max_retries clk =
      (ev1 @ [Sleep_uniform 15 30, Request geo term] @ ev3, clk3,
       Inr (concat (data1 @ [?zeros] @ data3)))"
    using assms(3) by (simp add: fetch_city_trends_def ds(1) all del: date_range.simps)
  have f1: "filter (\<lambda>ob. search_term ob = term) (concat data1) = []"
    using fetch_terms_search_term[OF b] notin(1) by (intro filter_concat_none) auto
  have f3: "filter (\<lambda>ob. search_term ob = term) (concat data3) = []"
    using fetch_terms_search_term[OF c] notin(2) by (intro filter_concat_none) auto
  have rows: "filter (\<lambda>ob. search_term ob = term) (concat (data1 @ [?zeros] @ data3)) = ?zeros"
    by (simp add: f1 f3)
  have z: "distinct (map date ?zeros)" "date ` set ?zeros = sundays_of y"
    "\<forall>ob \<in> set ?zeros. search_count ob = 0"
    using ds(2,3) by (simp_all add: comp_def image_image)
  have "let rows = filter (\<lambda>ob. search_term ob = term) (concat (data1 @ [?zeros] @ data3))
      in distinct (map date rows) \<and> date ` set rows = sundays_of y
         \<and> (\<forall>ob \<in> set rows. search_count ob = 0)"
    unfolding Let_def rows using z by (intro conjI)
  with f show ?thesis by blast
qed

text \<open>
  C2 for 2023, the keyword X and the quiet world.
\<close>

theorem empty_result_is_zero_filled_witness:
  "\<exists>ev clk' df.
     fetch_city_trends quiet_world ''US-A'' [''X''] (PyInt 2023) 3 0 = (ev, clk', Inr df) \<and>
     (let rows = filter (\<lambda>ob. search_term ob = ''X'') df
      in distinct (map date rows) \<and> date ` set rows = sundays_of 2023
         \<and> (\<forall>ob \<in> set rows. search_count ob = 0))"
  using empty_result_is_zero_filled[of 2023 quiet_world 0 3 "''X''" "[''X'']" "''US-A''"]
  by (simp add: quiet_world_def)

subsection \<open>C3: a keyword that is always rate limited\<close>

text \<open>
  C3. If every request for a keyword is answered by the rate-limit signal, then the fetch of
  an entity whose keyword list holds it (between the keywords \<open>before\<close> and
  \<open>after\<close>) does not raise; the loop for the keyword makes exactly
  \<open>max_retries\<close> requests (none for a negative bound) and appends nothing; the
  keywords after it are fetched as usual, from the time the last attempt left; and the
  result holds no observation for the keyword.
\<close>

theorem rate_limited_term_is_skipped:
  assumes "\<forall>n. rate_limited (interest_over_time world geo term n)"
    and "connect world clk" and "date_range year = Inr dates"
  shows "\<exists>ev1 clk1 data1 ev2 ev3 clk3 data3.
     fetch_terms world geo dates max_retries before (Suc clk) = (ev1, clk1, data1) \<and>
     attempts world geo term dates max_retries 0 clk1 = (ev2, clk1 + nat max_retries, None) \<and>
     requests geo term ev2 = nat max_retries \<and>
     fetch_terms world geo dates max_retries after (clk1 + nat max_retries) = (ev3, clk3, data3) \<and>
     fetch_city_trends world geo (before @ term # after) year max_retries clk =
       (ev1 @ ev2 @ ev3, clk3, Inr (concat (data1 @ data3))) \<and>
     (\<forall>ob \<in> set (concat (data1 @ data3)). search_term ob \<noteq> term)"
proof -
  obtain ev1 clk1 data1 where
    b: "fetch_terms world geo dates max_retries before (Suc clk) = (ev1, clk1, data1)"
    by (metis prod_cases3)
  obtain ev3 clk3 data3 where
    c: "fetch_terms world geo dates max_retries after (clk1 + nat max_retries) = (ev3, clk3, data3)"
    by (metis prod_cases3)
  obtain ev2 where
    a: "attempts world geo term dates max_retries 0 clk1 = (ev2, clk1 + nat max_retries, None)"
    and r: "requests geo term ev2 = nat max_retries"
    and t: "fetch_terms world geo dates max_retries (term # after) clk1 =
       (case fetch_terms world geo dates max_retries after (clk1 + nat max_retries) of
          (ev3, clk3, data3) \<Rightarrow> (ev2 @ ev3, clk3, data3))"
    by (rule fetch_terms_rate_limited_Cons[OF assms(1)])
  have all: "fetch_terms world geo dates max_retries (before @ term # after) (Suc clk) =
      (ev1 @ ev2 @ ev3, clk3, data1 @ data3)"
    by (simp add: fetch_terms_append b t c del: fetch_terms.simps)
  then have f: "fetch_city_trends world geo (before @ term # after) year max_retries clk =
       (ev1 @ ev2 @ ev3, clk3, Inr (concat (data1 @ data3)))"
    using assms(2,3) by (simp add: fetch_city_trends_def)
  have "\<forall>ob \<in> set (concat (data1 @ data3)). search_term ob \<noteq> term"
  proof
    fix ob assume "ob \<in> set (concat (data1 @ data3))"
    then obtain fr where "fr \<in> set (data1 @ data3)" "ob \<in> set fr" by auto
    with fetch_terms_none_for_rate_limited[OF assms(1) all] show "search_term ob \<noteq> term"
      by blast
  qed
  with a b c r f show ?thesis by blast
qed

text \<open>
  C3 for the throttled world, the single keyword X and three retries.
\<close>

theorem rate_limited_term_is_skipped_witness:
  "\<exists>ev1 clk1 data1 ev2 ev3 clk3 data3.
     fetch_terms throttled_world ''US-A''
       (date_range_W_SUN (ordinal 2023 1 1) (ordinal 2023 12 31)) 3 [] (Suc 0) = (ev1, clk1, data1) \<and>
     attempts throttled_world ''US-A'' ''X''
       (date_range_W_SUN (ordinal 2023 1 1) (ordinal 2023 12 31)) 3 0 clk1 = (ev2, clk1 + nat 3, None) \<and>
     requests ''US-A'' ''X'' ev2 = nat 3 \<and>
     fetch_terms throttled_world ''US-A''
       (date_range_W_SUN (ordinal 2023 1 1) (ordinal 2023 12 31)) 3 [] (clk1 + nat 3) = (ev3, clk3, data3) \<and>
     fetch_city_trends throttled_world ''US-A'' ([] @ ''X'' # []) (PyInt 2023) 3 0 =
       (ev1 @ ev2 @ ev3, clk3, Inr (concat (data1 @ data3))) \<and>
     (\<forall>ob \<in> set (concat (data1 @ data3)). search_term ob \<noteq> ''X'')"
proof -
  have a: "\<forall>n. rate_limited (interest_over_time throttled_world ''US-A'' ''X'' n)"
    by (simp add: throttled_rate_limited)
  have b: "connect throttled_world 0" by (simp add: throttled_world_def)
  have c: "date_range (PyInt 2023) = Inr (date_range_W_SUN (ordinal 2023 1 1) (ordinal 2023 12 31))"
    by simp
  show ?thesis by (rule rate_limited_term_is_skipped[OF a b c])
qed

subsection \<open>C4: two runs over an empty checkpoint file\<close>

text \<open>
  C4. The file exists but is empty, the state that \<open>get_completed_cities\<close> absorbs as
  \<^verbatim>\<open>EmptyDataError\<close>. The first run appends its 53 records without a header,
  because the header is written only when the file does not exist. The second run reads the
  first record as the header, finds no \<^verbatim>\<open>geo_code\<close> column, takes the
  completed-set to be empty, attempts the same city again and appends the same 53 records
  again: the file then holds every (entity code, keyword, week) twice, and the
  completed-set is still empty.
\<close>

theorem empty_checkpoint_file_is_never_resumed:
  "\<exists>st1 st2 rows.
     run_twice quiet_world quiet_world example_config [us_a] (Table [])
       = Inr ((st1, {}), (st2, {}))
     \<and> length rows = 53
     \<and> store st1 = Table rows
     \<and> store st2 = Table (rows @ rows)
     \<and> \<not> distinct (map triple (rows @ rows))
     \<and> \<not> distinct (map triple (records_of (store st2)))
     \<and> attempted (trace st1) = [''US-A'']
     \<and> attempted (trace st2) = [''US-A'']"
proof -
  let ?ds = "map (\<lambda>k. ordinal 2023 1 1 + 7 * int k) [0 ..< 53]"
  let ?rows = "map (zero_record us_a ''X'' 2023) ?ds"
  let ?tr = "[Starting_city (geo_code us_a), Sleep_uniform 15 30,
                   Request (geo_code us_a) ''X'', Saved (geo_code us_a) 53, Sleep_uniform 30 60]"
  let ?st1 = "\<lparr>store = Table ?rows, clock = 3, successful_cities = 1, failed_cities = 0,
           trace = ?tr, stopped = None\<rparr>"
  let ?st2 = "\<lparr>store = Table (?rows @ ?rows), clock = 3, successful_cities = 1, failed_cities = 0,
           trace = ?tr, stopped = None\<rparr>"
  have q: "1 \<le> MAX_CITIES_PER_RUN example_config" by (simp add: example_config_facts)
  have l: "length ?rows = 53" by simp
  obtain r rs where rs: "?rows = r # rs" "r = zero_record us_a ''X'' 2023 (ordinal 2023 1 1 + 7 * int 0)"
    by (simp add: upt_rec)
  have nh: "CStr ''geo_code'' \<notin> set r"
    unfolding rs(2) by (simp add: zero_record_def us_a_def)
  have c0: "get_completed_cities (Table []) = Inr {}" by (simp add: get_completed_cities_def)
  have "\<forall>l \<in> set ?rows. length l = length cols"
    by (simp add: length_zero_record)
  then have ten: "\<forall>l \<in> set (r # rs). length l = length cols"
    "\<forall>l \<in> set (r # rs @ r # rs). length l = length cols"
    unfolding rs(1) by auto
  have c1: "get_completed_cities (Table ?rows) = Inr {}"
    unfolding rs(1) using nh ten(1) by (rule completed_headless)
  have c2: "get_completed_cities (Table (?rows @ ?rows)) = Inr {}"
    unfolding rs(1) append_Cons using nh ten(2) by (rule completed_headless)
  from run_single_empty_2023[OF quiet_facts example_config_facts(1,2) q c0, of us_a] c1
  have r1: "run quiet_world example_config [us_a] (Table []) = Inr (?st1, {})"
    by simp
  from run_single_empty_2023[OF quiet_facts example_config_facts(1,2) q c1, of us_a] c2
  have r2: "run quiet_world example_config [us_a] (Table ?rows) = Inr (?st2, {})"
    by simp
  have t: "run_twice quiet_world quiet_world example_config [us_a] (Table [])
       = Inr ((?st1, {}), (?st2, {}))"
    by (simp only: run_twice_def r1 sum.case prod.case run_state.select_convs r2)
  have nd: "\<not> distinct (map triple (?rows @ ?rows))"
    using l by (simp add: distinct_append del: map_map)
  have "rs \<noteq> []" using l unfolding rs(1) by auto
  then obtain r' rs' where "rs = r' # rs'" by (cases rs) auto
  then have "\<not> distinct (map triple (rs @ r # rs))" by simp
  then have nr: "\<not> distinct (map triple (records_of (store ?st2)))"
    unfolding rs(1) by (simp add: records_of_def)
  have at: "attempted ?tr = [''US-A'']" by (simp add: attempted_def us_a_def)
  from t l nd nr at show ?thesis
    by (intro exI[of _ ?st1] exI[of _ ?st2] exI[of _ ?rows] conjI) simp_all
qed

subsection \<open>C5: a critical failure\<close>

text \<open>
  C5. The loop has reached \<open>row\<close> after the cities \<open>before\<close> without stopping,
  and an exception \<open>e\<close> escapes the handling of \<open>row\<close>. Then the loop ends in the
  state the failing iteration left, whatever cities come \<open>after\<close>: none of them is
  fetched or saved. The file is the one the loop had reached, so every record appended before
  the failure is unchanged and the completed-set read from it is the same; the failed count
  is one higher, the successful count is unchanged, and the trace ends with the critical
  failure of \<open>row\<close>.
\<close>

theorem critical_failure_ends_the_batch:
  assumes "stopped (process_cities world cfg st before) = None"
    and "stopped (process_city world cfg (process_cities world cfg st before) row) = Some e"
  shows "let reached = process_cities world cfg st before;
             final = process_cities world cfg st (before @ row # after)
         in final = process_city world cfg reached row
          \<and> store final = store reached
          \<and> get_completed_cities (store final) = get_completed_cities (store reached)
          \<and> failed_cities final = failed_cities reached + 1
          \<and> successful_cities final = successful_cities reached
          \<and> (\<exists>ev. trace final =
                 trace reached @ Starting_city (geo_code row) # ev @ [Critical_failure (geo_code row) e]
               \<and> (\<forall>x \<in> set ev. \<not> city_event x))"
proof -
  let ?reached = "process_cities world cfg st before"
  from stopped_process_city[OF assms(2,1)] obtain ev clk where
    c: "process_city world cfg ?reached row = critical_failure ?reached (geo_code row) ev clk e"
    and ev: "\<forall>x \<in> set ev. \<not> city_event x"
    by blast
  have "process_cities world cfg st (before @ row # after) = process_city world cfg ?reached row"
    using assms by (simp add: process_cities_append Let_def)
  with c ev show ?thesis
    by (auto simp: Let_def critical_failure_def)
qed

text \<open>
  C5 with a checkpoint file that cannot be opened: the first city fails, the second is never
  started.
\<close>

theorem critical_failure_ends_the_batch_witness:
  "(let reached = process_cities read_only_world example_config (initial Absent) [];
        final = process_cities read_only_world example_config (initial Absent) ([] @ us_a # [us_b])
    in final = process_city read_only_world example_config reached us_a
     \<and> store final = store reached
     \<and> get_completed_cities (store final) = get_completed_cities (store reached)
     \<and> failed_cities final = failed_cities reached + 1
     \<and> successful_cities final = successful_cities reached
     \<and> (\<exists>ev. trace final =
            trace reached @ Starting_city (geo_code us_a) # ev @ [Critical_failure (geo_code us_a) OSError]
          \<and> (\<forall>x \<in> set ev. \<not> city_event x)))
   \<and> stopped (process_cities read_only_world example_config (initial Absent) [us_a, us_b]) = Some OSError
   \<and> attempted (trace (process_cities read_only_world example_config (initial Absent) [us_a, us_b])) = [''US-A'']"
proof -
  have a: "stopped (process_cities read_only_world example_config (initial Absent) []) = None"
    by (simp add: initial_def)
  have b: "stopped (process_city read_only_world example_config
      (process_cities read_only_world example_config (initial Absent) []) us_a) = Some OSError"
    by (simp add: read_only_first_city[OF example_config_facts(1,2)])
  have c: "process_cities read_only_world example_config (initial Absent) [us_a, us_b] =
     \<lparr>store = Absent, clock = 3, successful_cities = 0, failed_cities = 1,
      trace = [Starting_city (geo_code us_a), Sleep_uniform 15 30, Request (geo_code us_a) ''X'',
               Critical_failure (geo_code us_a) OSError],
      stopped = Some OSError\<rparr>"
    by (simp add: read_only_first_city[OF example_config_facts(1,2)] Let_def)
  have d: "stopped (process_cities read_only_world example_config (initial Absent) [us_a, us_b]) = Some OSError"
    "attempted (trace (process_cities read_only_world example_config (initial Absent) [us_a, us_b])) = [''US-A'']"
    unfolding c by (simp_all add: attempted_def us_a_def)
  from critical_failure_ends_the_batch[OF a b, of "[us_b]"] d show ?thesis
    by (intro conjI)
qed

subsection \<open>C6: a city without data\<close>



subsection \<open>C7: no usable checkpoint\<close>

text \<open>
  C7. If the checkpoint file is absent, or \<^verbatim>\<open>pd.read_csv\<close> finds it empty, or it
  parses into a frame without a \<^verbatim>\<open>geo_code\<close> column, then
  \<open>get_completed_cities\<close> returns the empty set, and the run goes on: the batch is
  the first cities of the whole catalog, up to the quota, and the run is the loop over that
  batch followed by the closing report. When the file was absent or empty the run returns.
  (When it had another header the closing report can raise: the records of the batch were
  appended under that header.)
\<close>

theorem no_usable_checkpoint_means_nothing_completed:
  assumes "f = Absent \<or> read_csv f = Inl EmptyDataError
     \<or> (\<exists>df_done. read_csv f = Inr df_done \<and> CStr ''geo_code'' \<notin> fst ` set df_done)"
  shows "get_completed_cities f = Inr {}
     \<and> cities_to_process cfg df_cities {} = head (MAX_CITIES_PER_RUN cfg) df_cities
     \<and> (let st = process_cities world cfg (initial f) (head (MAX_CITIES_PER_RUN cfg) df_cities)
        in run world cfg df_cities f =
             (case get_completed_cities (store st) of
                Inl e \<Rightarrow> Inl e
              | Inr completed \<Rightarrow> Inr (st, completed))
         \<and> (f = Absent \<or> read_csv f = Inl EmptyDataError \<longrightarrow>
              (\<exists>completed. run world cfg df_cities f = Inr (st, completed))))"
proof -
  let ?batch = "head (MAX_CITIES_PER_RUN cfg) df_cities"
  let ?st = "process_cities world cfg (initial f) ?batch"
  from assms have c: "get_completed_cities f = Inr {}"
    using completed_Absent completed_EmptyDataError completed_no_column by blast
  have b: "cities_to_process cfg df_cities {} = ?batch"
    by (simp add: cities_to_process_def remaining_work_def)
  have r: "run world cfg df_cities f =
     (case get_completed_cities (store ?st) of
        Inl e \<Rightarrow> Inl e
      | Inr completed \<Rightarrow> Inr (?st, completed))"
    using run_after_first_read[OF c, of world cfg df_cities] by (simp add: b Let_def)
  have w: "\<exists>completed. run world cfg df_cities f = Inr (?st, completed)"
    if "f = Absent \<or> read_csv f = Inl EmptyDataError"
  proof -
    from that have "regular f" using regular_blank by (auto simp: regular_def)
    then have "regular (store ?st)"
      by (intro regular_process_cities) (simp add: initial_def)
    then obtain completed where "get_completed_cities (store ?st) = Inr completed"
      using regular_completed by blast
    with r show ?thesis by simp
  qed
  from w have "f = Absent \<or> read_csv f = Inl EmptyDataError \<longrightarrow>
      (\<exists>completed. run world cfg df_cities f = Inr (?st, completed))" by (rule impI)
  with c b r show ?thesis unfolding Let_def by (intro conjI)
qed

text \<open>
  C7 for the absent file, for the empty file, and for a file with another header and one
  record. In the last case the first read gives the empty set and the city is fetched and
  saved, but its records of ten fields stand under a record of two, and the closing report
  ends the script with \<^verbatim>\<open>ParserError\<close>.
\<close>

theorem no_usable_checkpoint_witness:
  "(get_completed_cities Absent = Inr {}
      \<and> (\<exists>completed. run quiet_world example_config [us_a] Absent =
            Inr (process_cities quiet_world example_config (initial Absent)
                   (head (MAX_CITIES_PER_RUN example_config) [us_a]), completed)))
   \<and> (get_completed_cities (Table []) = Inr {}
      \<and> (\<exists>completed. run quiet_world example_config [us_a] (Table []) =
            Inr (process_cities quiet_world example_config (initial (Table []))
                   (head (MAX_CITIES_PER_RUN example_config) [us_a]), completed)))
   \<and> (get_completed_cities foreign_file = Inr {}
      \<and> cities_to_process example_config [us_a] {}
          = head (MAX_CITIES_PER_RUN example_config) [us_a]
      \<and> run quiet_world example_config [us_a] foreign_file = Inl ParserError)"
proof -
  let ?P = "\<lambda>f. f = Absent \<or> read_csv f = Inl EmptyDataError
     \<or> (\<exists>df_done. read_csv f = Inr df_done \<and> CStr ''geo_code'' \<notin> fst ` set df_done)"
  have a: "?P Absent" by simp
  have b: "?P (Table [])" by simp
  have "CStr ''geo_code'' \<notin> fst ` set (frame [CStr ''date'', CStr ''city'']
      [[CDate (ordinal 2023 1 1), CStr ''US-A'']])"
    unfolding fst_set_frame by simp
  with foreign_file_frame have c: "?P foreign_file" by blast
  note ta = no_usable_checkpoint_means_nothing_completed[OF a, of example_config "[us_a]" quiet_world,
      unfolded Let_def]
  note tb = no_usable_checkpoint_means_nothing_completed[OF b, of example_config "[us_a]" quiet_world,
      unfolded Let_def]
  note tc = no_usable_checkpoint_means_nothing_completed[OF c, of example_config "[us_a]" quiet_world,
      unfolded Let_def]
  have h: "head (MAX_CITIES_PER_RUN example_config) [us_a] = [us_a]"
    by (simp add: head_def example_config_def)
  have st: "store (process_cities quiet_world example_config (initial foreign_file)
        (head (MAX_CITIES_PER_RUN example_config) [us_a]))
     = to_csv foreign_file (map (zero_record us_a ''X'' 2023)
         (map (\<lambda>k. ordinal 2023 1 1 + 7 * int k) [0 ..< 53]))"
    unfolding h
    by (simp add: Let_def initial_def
        process_city_empty_2023[OF _ _ quiet_facts(3) example_config_facts(1,2)] quiet_facts)
  have "get_completed_cities (store (process_cities quiet_world example_config (initial foreign_file)
        (head (MAX_CITIES_PER_RUN example_config) [us_a]))) = Inl ParserError"
    unfolding st by (simp only: upt_conv_Cons[of 0 53] list.map zero_less_numeral
        foreign_file_after_a_city)
  with tc[THEN conjunct2, THEN conjunct2, THEN conjunct1]
  have r: "run quiet_world example_config [us_a] foreign_file = Inl ParserError"
    by simp
  have ha: "Absent = Absent \<or> read_csv Absent = Inl EmptyDataError" by simp
  have hb: "Table [] = Absent \<or> read_csv (Table []) = Inl EmptyDataError" by simp
  note wa = ta[THEN conjunct1]
    ta[THEN conjunct2, THEN conjunct2, THEN conjunct2, rule_format, OF ha]
  note wb = tb[THEN conjunct1]
    tb[THEN conjunct2, THEN conjunct2, THEN conjunct2, rule_format, OF hb]
  note wc = tc[THEN conjunct1] tc[THEN conjunct2, THEN conjunct1]
  from wa wb wc r show ?thesis by (intro conjI)
qed

subsection \<open>C8: exponential backoff\<close>

text \<open>
  C8. Let the first \<open>k\<close> requests for a keyword be answered by the rate-limit signal.
  While retries are left (\<open>k < max_retries\<close>), the trace of the loop starts with
  \<open>backoff geo term k\<close>: after the \<open>i\<close>-th of these attempts (counted from one)
  it sleeps exactly \<open>2 ^ i * 60\<close> seconds, and then goes on with the next attempt, which
  is preceded by the pause of 15 to 30 seconds that precedes every attempt. When the
  \<open>max_retries\<close>-th attempt is rate limited too (\<open>k = max_retries\<close>), no sleep
  follows it, the keyword contributes nothing, and the fetch goes on with the remaining
  keywords.
\<close>

theorem backoff_doubles:
  assumes "\<forall>i<k. rate_limited (interest_over_time world geo term (clk + i))"
  shows "(int k < max_retries \<longrightarrow>
           attempts world geo term dates max_retries 0 clk =
             (case attempts world geo term dates max_retries (int k) (clk + k) of
                (ev, clk', r) \<Rightarrow> (backoff geo term k @ ev, clk', r)))
       \<and> (0 < k \<and> int k = max_retries \<longrightarrow>
           attempts world geo term dates max_retries 0 clk =
             (backoff geo term (k - 1) @ [Sleep_uniform 15 30, Request geo term], clk + k, None)
           \<and> fetch_terms world geo dates max_retries (term # keywords) clk =
               (case fetch_terms world geo dates max_retries keywords (clk + k) of
                  (ev, clk', all_data) \<Rightarrow>
                    (backoff geo term (k - 1) @ [Sleep_uniform 15 30, Request geo term] @ ev,
                     clk', all_data)))"
proof (intro conjI impI)
  assume "int k < max_retries"
  with assms show "attempts world geo term dates max_retries 0 clk =
             (case attempts world geo term dates max_retries (int k) (clk + k) of
                (ev, clk', r) \<Rightarrow> (backoff geo term k @ ev, clk', r))"
    by (rule attempts_backoff)
next
  assume k: "0 < k \<and> int k = max_retries"
  then have n: "nat max_retries = k" "0 < max_retries" by auto
  with assms have "\<forall>i<nat max_retries. rate_limited (interest_over_time world geo term (clk + i))"
    by simp
  from attempts_exhausted[OF this n(2), of dates]
  show a: "attempts world geo term dates max_retries 0 clk =
             (backoff geo term (k - 1) @ [Sleep_uniform 15 30, Request geo term], clk + k, None)"
    unfolding n(1) .
  show "fetch_terms world geo dates max_retries (term # keywords) clk =
               (case fetch_terms world geo dates max_retries keywords (clk + k) of
                  (ev, clk', all_data) \<Rightarrow>
                    (backoff geo term (k - 1) @ [Sleep_uniform 15 30, Request geo term] @ ev,
                     clk', all_data))"
    by (simp add: a split: prod.splits)
qed

text \<open>
  C8 for three retries on the throttled world: the waits are 120 and 240 seconds, and the
  keyword Y is fetched after X was given up.
\<close>

theorem backoff_doubles_witness:
  "attempts throttled_world ''US-A'' ''X'' [] 3 0 0 =
     (case attempts throttled_world ''US-A'' ''X'' [] 3 (int 2) (0 + 2) of
        (ev, clk', r) \<Rightarrow> (backoff ''US-A'' ''X'' 2 @ ev, clk', r))
   \<and> backoff ''US-A'' ''X'' 2 =
       [Sleep_uniform 15 30, Request ''US-A'' ''X'', Sleep 120,
        Sleep_uniform 15 30, Request ''US-A'' ''X'', Sleep 240]
   \<and> attempts throttled_world ''US-A'' ''X'' [] 3 0 0 =
       (backoff ''US-A'' ''X'' (3 - 1) @ [Sleep_uniform 15 30, Request ''US-A'' ''X''], 0 + 3, None)
   \<and> fetch_terms throttled_world ''US-A'' [] 3 [''X'', ''Y''] 0 =
       (case fetch_terms throttled_world ''US-A'' [] 3 [''Y''] (0 + 3) of
          (ev, clk', all_data) \<Rightarrow>
            (backoff ''US-A'' ''X'' (3 - 1) @ [Sleep_uniform 15 30, Request ''US-A'' ''X''] @ ev,
             clk', all_data))"
proof -
  have a: "\<forall>i<2. rate_limited (interest_over_time throttled_world ''US-A'' ''X'' (0 + i))"
    by (simp add: throttled_rate_limited)
  have b: "\<forall>i<3. rate_limited (interest_over_time throttled_world ''US-A'' ''X'' (0 + i))"
    by (simp add: throttled_rate_limited)
  have c: "backoff ''US-A'' ''X'' 2 =
       [Sleep_uniform 15 30, Request ''US-A'' ''X'', Sleep 120,
        Sleep_uniform 15 30, Request ''US-A'' ''X'', Sleep 240]"
    by (simp add: backoff_def upt_rec)
  have p: "int 2 < 3" by simp
  have q: "0 < (3::nat) \<and> int 3 = 3" by simp
  note t1 = backoff_doubles[OF a, of 3 "[]" "[]", THEN conjunct1, rule_format, OF p]
  note t2 = backoff_doubles[OF b, of 3 "[]" "[''Y'']", THEN conjunct2, rule_format, OF q]
  from t1 c t2[THEN conjunct1] t2[THEN conjunct2] show ?thesis
    by (intro conjI)
qed

subsection \<open>C9: the per-run quota\<close>

text \<open>
  C9 as stated fails: three cities remain and the quota is two, but the checkpoint file
  cannot be opened for appending, so the first city ends in a critical failure and it is
  the only city attempted.
\<close>

theorem quota_not_reached_after_critical_failure:
  "get_completed_cities Absent = Inr {}
   \<and> length (remaining_work [us_a, us_b, us_c] {}) = 3
   \<and> MAX_CITIES_PER_RUN small_quota_config = 2
   \<and> map_sum id (\<lambda>(st, completed). (attempted (trace st), stopped st))
        (run read_only_world small_quota_config [us_a, us_b, us_c] Absent)
      = Inr ([''US-A''], Some OSError)"
proof -
  have b: "cities_to_process small_quota_config [us_a, us_b, us_c] {} = [us_a, us_b]"
    by (simp add: cities_to_process_def remaining_three head_def small_quota_config_facts)
  have r: "run read_only_world small_quota_config [us_a, us_b, us_c] Absent =
     Inr (\<lparr>store = Absent, clock = 3, successful_cities = 0, failed_cities = 1,
      trace = [Starting_city (geo_code us_a), Sleep_uniform 15 30, Request (geo_code us_a) ''X'',
               Critical_failure (geo_code us_a) OSError],
      stopped = Some OSError\<rparr>, {})"
    unfolding run_def completed_Absent
    by (simp add: b Let_def read_only_first_city[OF small_quota_config_facts(1,2)] completed_Absent)
  have l: "length (remaining_work [us_a, us_b, us_c] {}) = 3"
    unfolding remaining_three by simp
  have m: "map_sum id (\<lambda>(st, completed). (attempted (trace st), stopped st))
        (run read_only_world small_quota_config [us_a, us_b, us_c] Absent)
      = Inr ([''US-A''], Some OSError)"
    unfolding r by (simp add: attempted_def us_a_def)
  from completed_Absent l small_quota_config_facts(3) m show ?thesis
    by (intro conjI)
qed

text \<open>
  C9, amended. If the remaining work is larger than the quota (a quota that is not
  negative), the run selects exactly quota cities; in the state after the loop, the cities
  attempted are the first \<open>k\<close> of them, in order, each counted as successful or failed;
  \<open>k\<close> is the quota when no critical failure stopped the batch, and otherwise at least
  one and at most the quota.
\<close>

theorem quota_bounds_the_batch:
  assumes "get_completed_cities f = Inr completed_geos"
    and "0 \<le> MAX_CITIES_PER_RUN cfg"
    and "MAX_CITIES_PER_RUN cfg < int (length (remaining_work df_cities completed_geos))"
  shows "\<exists>st k.
     st = process_cities world cfg (initial f) (cities_to_process cfg df_cities completed_geos)
     \<and> run world cfg df_cities f =
           (case get_completed_cities (store st) of
              Inl e \<Rightarrow> Inl e
            | Inr completed \<Rightarrow> Inr (st, completed))
     \<and> int (length (cities_to_process cfg df_cities completed_geos)) = MAX_CITIES_PER_RUN cfg
     \<and> attempted (trace st) = map geo_code (take k (cities_to_process cfg df_cities completed_geos))
     \<and> successful_cities st + failed_cities st = k
     \<and> int k \<le> MAX_CITIES_PER_RUN cfg
     \<and> (stopped st = None \<longrightarrow> int k = MAX_CITIES_PER_RUN cfg)
     \<and> (stopped st \<noteq> None \<longrightarrow> 0 < k)"
proof -
  let ?batch = "cities_to_process cfg df_cities completed_geos"
  let ?st = "process_cities world cfg (initial f) ?batch"
  have len: "int (length ?batch) = MAX_CITIES_PER_RUN cfg"
    unfolding cities_to_process_def using assms(2,3) by (rule length_head)
  have r: "run world cfg df_cities f =
     (case get_completed_cities (store ?st) of
        Inl e \<Rightarrow> Inl e
      | Inr completed \<Rightarrow> Inr (?st, completed))"
    using run_after_first_read[OF assms(1), of world cfg df_cities] by (simp add: Let_def)
  from process_cities_attempted[of ?batch world cfg "initial f"] obtain k where
    k: "k \<le> length ?batch"
      "attempted (trace ?st) = attempted (trace (initial f)) @ map geo_code (take k ?batch)"
      "successful_cities ?st + failed_cities ?st
         = successful_cities (initial f) + failed_cities (initial f) + k"
      "stopped ?st = None \<longrightarrow> k = length ?batch"
      "stopped ?st \<noteq> None \<and> stopped (initial f) = None \<longrightarrow> 0 < k"
    by (elim exE conjE) (rule that; assumption)
  have i: "attempted (trace (initial f)) = []" "successful_cities (initial f) = 0"
    "failed_cities (initial f) = 0" "stopped (initial f) = None"
    by (simp_all add: initial_def attempted_def)
  from k len have "int k \<le> MAX_CITIES_PER_RUN cfg" "stopped ?st = None \<longrightarrow> int k = MAX_CITIES_PER_RUN cfg"
    by auto
  moreover have "attempted (trace ?st) = map geo_code (take k ?batch)"
    "successful_cities ?st + failed_cities ?st = k" "stopped ?st \<noteq> None \<longrightarrow> 0 < k"
    using k(2,3,5) i by simp_all
  ultimately show ?thesis
    using r len by (intro exI[of _ ?st] exI[of _ k] conjI) simp_all
qed

text \<open>
  C9, amended, for three remaining cities and a quota of two.
\<close>

theorem quota_bounds_the_batch_witness:
  "\<exists>st k.
     st = process_cities quiet_world small_quota_config (initial Absent)
            (cities_to_process small_quota_config [us_a, us_b, us_c] {})
     \<and> run quiet_world small_quota_config [us_a, us_b, us_c] Absent =
           (case get_completed_cities (store st) of
              Inl e \<Rightarrow> Inl e
            | Inr completed \<Rightarrow> Inr (st, completed))
     \<and> int (length (cities_to_process small_quota_config [us_a, us_b, us_c] {}))
         = MAX_CITIES_PER_RUN small_quota_config
     \<and> attempted (trace st)
         = map geo_code (take k (cities_to_process small_quota_config [us_a, us_b, us_c] {}))
     \<and> successful_cities st + failed_cities st = k
     \<and> int k \<le> MAX_CITIES_PER_RUN small_quota_config
     \<and> (stopped st = None \<longrightarrow> int k = MAX_CITIES_PER_RUN small_quota_config)
     \<and> (stopped st \<noteq> None \<longrightarrow> 0 < k)"
proof -
  have a: "0 \<le> MAX_CITIES_PER_RUN small_quota_config"
    by (simp add: small_quota_config_facts)
  have b: "MAX_CITIES_PER_RUN small_quota_config < int (length (remaining_work [us_a, us_b, us_c] {}))"
    by (simp add: small_quota_config_facts remaining_three)
  show ?thesis by (rule quota_bounds_the_batch[OF completed_Absent a b])
qed

subsection \<open>C10: a checkpoint file that does not parse\<close>



end
